(* ===== verification/Indy_Prelude.thy ===== *)
theory Indy_Prelude
  imports Main "HOL-Library.Word" "HOL-Library.AList"
begin

text \<open>
  Shared vocabulary of the development: bytes, machine arithmetic on \<open>usize\<close> in both build
  profiles, the outcome type of a Rust function, \<open>HashMap\<close> and \<open>HashSet\<close> as association lists and
  duplicate-free lists, and the generic lemmas and proof collections the component theories use.
\<close>

named_theorems rust_simps \<open>rewrite rules that run a Rust outcome\<close>
named_theorems hmap_simps \<open>rewrite rules for hash maps and hash sets\<close>

section \<open>Bytes and machine integers\<close>

type_synonym byte = "8 word"
type_synonym bytes = "byte list"

text \<open>
  A \<open>usize\<close> is a natural number below \<open>2 ^ 64\<close>. Subtraction below zero panics in a debug build
  and wraps around in a release build, so the model takes the build profile.
\<close>

datatype profile = Debug | Release

section \<open>Outcomes\<close>

text \<open>
  A Rust function returns a value, returns an \<open>Err\<close>, or panics (a failed assertion, an index out
  of range, an \<open>unwrap\<close> of nothing, an overflow in a debug build). The type of the error is a
  parameter here; \<open>Indy_Errors\<close> fixes it.
\<close>

datatype (res_vals: 'a, res_errs: 'e) outcome = Ok 'a | Err 'e | Panic

fun bind_outcome :: "('a, 'e) outcome \<Rightarrow> ('a \<Rightarrow> ('b, 'e) outcome) \<Rightarrow> ('b, 'e) outcome" where
  "bind_outcome (Ok x) f = f x"
| "bind_outcome (Err e) f = Err e"
| "bind_outcome Panic f = Panic"

definition ok_or :: "'a option \<Rightarrow> 'e \<Rightarrow> ('a, 'e) outcome" where
  "ok_or x e = (case x of None \<Rightarrow> Err e | Some v \<Rightarrow> Ok v)"

definition unwrap_opt :: "'a option \<Rightarrow> ('a, 'e) outcome" where
  "unwrap_opt x = (case x of None \<Rightarrow> Panic | Some v \<Rightarrow> Ok v)"

definition is_ok :: "('a, 'e) outcome \<Rightarrow> bool" where
  "is_ok x = (case x of Ok _ \<Rightarrow> True | _ \<Rightarrow> False)"

definition ok_val :: "('a, 'e) outcome \<Rightarrow> 'a option" where
  "ok_val x = (case x of Ok v \<Rightarrow> Some v | _ \<Rightarrow> None)"

lemma ok_or_simps [simp, rust_simps]: "ok_or None e = Err e" "ok_or (Some v) e = Ok v"
  by (simp_all add: ok_or_def)

lemma unwrap_opt_simps [simp, rust_simps]: "unwrap_opt None = Panic" "unwrap_opt (Some v) = Ok v"
  by (simp_all add: unwrap_opt_def)

lemma is_ok_simps [simp, rust_simps]: "is_ok (Ok v)" "\<not> is_ok (Err e)" "\<not> is_ok Panic"
  by (simp_all add: is_ok_def)

lemma ok_val_simps [simp, rust_simps]: "ok_val (Ok v) = Some v" "ok_val (Err e) = None" "ok_val Panic = None"
  by (simp_all add: ok_val_def)

lemma ok_val_Some: "ok_val m = Some v \<longleftrightarrow> m = Ok v"
  by (cases m) auto

lemma is_ok_val: "is_ok m \<Longrightarrow> m = Ok (the (ok_val m))"
  by (cases m) auto

lemma ok_or_eq_Ok [simp]: "ok_or x e = Ok v \<longleftrightarrow> x = Some v"
  by (cases x) auto

lemma ok_or_eq_Err [simp]: "ok_or x e = Err e' \<longleftrightarrow> x = None \<and> e' = e"
  by (cases x) auto

lemma ok_or_not_Panic [simp]: "ok_or x e \<noteq> Panic"
  by (cases x) auto

lemma bind_eq_Ok [simp]: "bind_outcome m f = Ok y \<longleftrightarrow> (\<exists>x. m = Ok x \<and> f x = Ok y)"
  by (cases m) auto

lemma bind_eq_Err: "bind_outcome m f = Err e \<longleftrightarrow> m = Err e \<or> (\<exists>x. m = Ok x \<and> f x = Err e)"
  by (cases m) auto

lemma bind_eq_Panic: "bind_outcome m f = Panic \<longleftrightarrow> m = Panic \<or> (\<exists>x. m = Ok x \<and> f x = Panic)"
  by (cases m) auto

lemma bind_assoc: "bind_outcome (bind_outcome m f) g = bind_outcome m (\<lambda>x. bind_outcome (f x) g)"
  by (cases m) auto

lemma bind_Ok_right [simp]: "bind_outcome m Ok = m"
  by (cases m) auto

lemma bind_cong [fundef_cong]:
  "m = m' \<Longrightarrow> (\<And>x. m' = Ok x \<Longrightarrow> f x = f' x) \<Longrightarrow> bind_outcome m f = bind_outcome m' f'"
  by (cases m') auto

text \<open>A \<open>for\<close> loop that pushes the result of a fallible body for each element.\<close>

fun map_outcome :: "('a \<Rightarrow> ('b, 'e) outcome) \<Rightarrow> 'a list \<Rightarrow> ('b list, 'e) outcome" where
  "map_outcome f [] = Ok []"
| "map_outcome f (x # xs) =
     bind_outcome (f x) (\<lambda>y. bind_outcome (map_outcome f xs) (\<lambda>ys. Ok (y # ys)))"

lemma map_outcome_cong [fundef_cong]:
  "xs = ys \<Longrightarrow> (\<And>x. x \<in> set ys \<Longrightarrow> f x = g x) \<Longrightarrow> map_outcome f xs = map_outcome g ys"
proof -
  assume "xs = ys" and fg: "\<And>x. x \<in> set ys \<Longrightarrow> f x = g x"
  from fg have "map_outcome f ys = map_outcome g ys"
    by (induction ys) auto
  with \<open>xs = ys\<close> show ?thesis by simp
qed

lemma map_outcome_Ok: "map_outcome f xs = Ok ys \<longleftrightarrow> list_all2 (\<lambda>x y. f x = Ok y) xs ys"
  by (induction xs arbitrary: ys) (auto simp: list_all2_Cons1)

lemma map_outcome_append:
  "map_outcome f (xs @ ys) =
     bind_outcome (map_outcome f xs) (\<lambda>us. bind_outcome (map_outcome f ys) (\<lambda>vs. Ok (us @ vs)))"
  by (induction xs) (auto simp: bind_assoc)

lemma map_outcome_all_Ok: "(\<And>x. x \<in> set xs \<Longrightarrow> f x = Ok (g x)) \<Longrightarrow> map_outcome f xs = Ok (map g xs)"
  by (induction xs) auto

lemma map_outcome_map: "map_outcome f (map g xs) = map_outcome (\<lambda>x. f (g x)) xs"
  by (induction xs) auto

lemma list_all2_left: "list_all2 P xs ys \<Longrightarrow> x \<in> set xs \<Longrightarrow> \<exists>y \<in> set ys. P x y"
  by (induction rule: list_all2_induct) auto

lemma list_all2_right: "list_all2 P xs ys \<Longrightarrow> y \<in> set ys \<Longrightarrow> \<exists>x \<in> set xs. P x y"
  by (induction rule: list_all2_induct) auto

definition usize_sub :: "profile \<Rightarrow> nat \<Rightarrow> nat \<Rightarrow> (nat, 'e) outcome" where
  "usize_sub p a b =
     (if b \<le> a then Ok (a - b)
      else (case p of Debug \<Rightarrow> Panic | Release \<Rightarrow> Ok (2 ^ 64 + a - b)))"

lemma usize_sub_le [simp, rust_simps]: "b \<le> a \<Longrightarrow> usize_sub p a b = Ok (a - b)"
  by (simp add: usize_sub_def)

lemma usize_sub_Debug [rust_simps]: "a < b \<Longrightarrow> usize_sub Debug a b = Panic"
  by (simp add: usize_sub_def)

lemma usize_sub_Release [rust_simps]: "a < b \<Longrightarrow> usize_sub Release a b = Ok (2 ^ 64 + a - b)"
  by (simp add: usize_sub_def)

definition usize_add :: "profile \<Rightarrow> nat \<Rightarrow> nat \<Rightarrow> (nat, 'e) outcome" where
  "usize_add p a b =
     (if a + b < 2 ^ 64 then Ok (a + b)
      else (case p of Debug \<Rightarrow> Panic | Release \<Rightarrow> Ok ((a + b) mod 2 ^ 64)))"

lemma usize_add_small [simp, rust_simps]: "a + b < 2 ^ 64 \<Longrightarrow> usize_add p a b = Ok (a + b)"
  by (simp add: usize_add_def)

section \<open>Hash maps and hash sets\<close>

text \<open>
  A \<open>HashMap\<close> is an association list without repeated keys and a \<open>HashSet\<close> a list without repeated
  elements. The iteration order of the Rust collections is unspecified; it is the order of the list
  here, and every theorem is about every such list, so about every order.
\<close>

type_synonym ('k, 'v) hmap = "('k \<times> 'v) list"
type_synonym 'a hset = "'a list"

abbreviation hmap_ok :: "('k, 'v) hmap \<Rightarrow> bool" where
  "hmap_ok m \<equiv> distinct (map fst m)"

abbreviation hset_insert :: "'a \<Rightarrow> 'a hset \<Rightarrow> 'a hset" where
  "hset_insert \<equiv> List.insert"

abbreviation hset_remove :: "'a \<Rightarrow> 'a hset \<Rightarrow> 'a hset" where
  "hset_remove \<equiv> removeAll"

definition hmap_get :: "'k \<Rightarrow> ('k, 'v) hmap \<Rightarrow> 'v option" where
  "hmap_get k m = map_of m k"

definition hmap_insert :: "'k \<Rightarrow> 'v \<Rightarrow> ('k, 'v) hmap \<Rightarrow> ('k, 'v) hmap" where
  "hmap_insert k v m = AList.update k v m"

definition hmap_remove :: "'k \<Rightarrow> ('k, 'v) hmap \<Rightarrow> ('k, 'v) hmap" where
  "hmap_remove k m = AList.delete k m"

definition hmap_contains :: "'k \<Rightarrow> ('k, 'v) hmap \<Rightarrow> bool" where
  "hmap_contains k m = (hmap_get k m \<noteq> None)"

lemma hmap_get_Nil [simp, hmap_simps]: "hmap_get k [] = None"
  by (simp add: hmap_get_def)

lemma hmap_get_Cons [simp, hmap_simps]:
  "hmap_get k ((k', v) # m) = (if k = k' then Some v else hmap_get k m)"
  by (simp add: hmap_get_def)

lemma hmap_get_insert [simp, hmap_simps]:
  "hmap_get k (hmap_insert k' v m) = (if k = k' then Some v else hmap_get k m)"
  by (simp add: hmap_get_def hmap_insert_def update_conv')

lemma hmap_get_remove [simp, hmap_simps]:
  "hmap_get k (hmap_remove k' m) = (if k = k' then None else hmap_get k m)"
  by (simp add: hmap_get_def hmap_remove_def delete_conv')

lemma hmap_ok_insert [simp, hmap_simps]: "hmap_ok m \<Longrightarrow> hmap_ok (hmap_insert k v m)"
  by (simp add: hmap_insert_def distinct_update)

lemma hmap_ok_remove [simp, hmap_simps]: "hmap_ok m \<Longrightarrow> hmap_ok (hmap_remove k m)"
  by (simp add: hmap_remove_def distinct_delete)

lemma hmap_get_Some_in: "hmap_get k m = Some v \<Longrightarrow> (k, v) \<in> set m"
  by (simp add: hmap_get_def map_of_SomeD)

lemma hmap_get_in: "hmap_ok m \<Longrightarrow> (k, v) \<in> set m \<Longrightarrow> hmap_get k m = Some v"
  by (simp add: hmap_get_def)

lemma hmap_get_None_iff: "hmap_get k m = None \<longleftrightarrow> k \<notin> fst ` set m"
  by (simp add: hmap_get_def map_of_eq_None_iff)

lemma hmap_insert_simps [simp, hmap_simps]:
  "hmap_insert k v [] = [(k, v)]"
  "hmap_insert k v ((k', v') # m) = (if k' = k then (k, v) # m else (k', v') # hmap_insert k v m)"
  by (simp_all add: hmap_insert_def)

lemma hmap_remove_simps [simp, hmap_simps]:
  "hmap_remove k [] = []"
  "hmap_remove k ((k', v') # m) = (if k' = k then hmap_remove k m else (k', v') # hmap_remove k m)"
  by (simp_all add: hmap_remove_def)

lemma hset_insert_length:
  "length (hset_insert x s) = (if x \<in> set s then length s else Suc (length s))"
  by (simp add: List.insert_def)

lemma hset_remove_length: "distinct s \<Longrightarrow> length (hset_remove x s) = (if x \<in> set s then length s - 1 else length s)"
  by (induction s) (auto simp: Suc_diff_le dest: length_pos_if_in_set)

lemma hset_length_le_card: "distinct s \<Longrightarrow> set s \<subseteq> A \<Longrightarrow> finite A \<Longrightarrow> length s \<le> card A"
  using card_mono distinct_card by metis

text \<open>The iterator method \<open>max_by_key\<close>: the last of the elements with the greatest key.\<close>

fun max_by_key :: "('a \<Rightarrow> nat) \<Rightarrow> 'a list \<Rightarrow> 'a option" where
  "max_by_key f [] = None"
| "max_by_key f (x # xs) =
     (case max_by_key f xs of None \<Rightarrow> Some x | Some y \<Rightarrow> if f x \<le> f y then Some y else Some x)"

lemma max_by_key_None [simp]: "max_by_key f xs = None \<longleftrightarrow> xs = []"
  by (cases xs) (auto split: option.splits)

lemma max_by_key_Some: "max_by_key f xs = Some y \<Longrightarrow> y \<in> set xs \<and> (\<forall>x \<in> set xs. f x \<le> f y)"
proof (induction xs arbitrary: y)
  case (Cons x xs)
  show ?case
  proof (cases "max_by_key f xs")
    case None
    with Cons.prems show ?thesis by simp
  next
    case (Some z)
    with Cons.IH [OF Some] Cons.prems show ?thesis by (auto split: if_splits)
  qed
qed simp

end
