(* ===== verification/Indy_Errors.thy ===== *)
theory Indy_Errors
  imports Indy_Prelude
begin

text \<open>
  The error kinds of the library (\<open>errors/mod.rs\<close>). An \<open>IndyError\<close> is represented by its kind: the
  message and the chain of causes it also carries are only printed, never inspected. A fallible
  function of the library returns an \<open>IndyResult\<close>; a panic is the third outcome.
\<close>

datatype (plugins only: code) IndyErrorKind =
    InvalidState
  | InvalidStructure
  | InvalidParam "32 word"
  | IOError
  | MasterSecretDuplicateName
  | ProofRejected
  | RevocationRegistryFull
  | InvalidUserRevocId
  | CredentialRevoked
  | CredDefAlreadyExists
  | NoConsensus
  | InvalidTransaction
  | LedgerItemNotFound
  | PoolNotCreated
  | InvalidPoolHandle
  | PoolTerminated
  | PoolTimeout
  | PoolConfigAlreadyExists
  | PoolIncompatibleProtocolVersion
  | UnknownCrypto
  | InvalidWalletHandle
  | UnknownWalletStorageType
  | WalletStorageTypeAlreadyRegistered
  | WalletAlreadyExists
  | WalletNotFound
  | WalletAlreadyOpened
  | WalletAccessFailed
  | WalletEncodingError
  | WalletStorageError
  | WalletEncryptionError
  | WalletItemNotFound
  | WalletItemAlreadyExists
  | WalletQueryError
  | DIDAlreadyExists
  | UnknownPaymentMethodType
  | IncompatiblePaymentMethods
  | PaymentInsufficientFunds
  | PaymentSourceDoesNotExist
  | PaymentOperationNotSupported
  | PaymentExtraFunds

type_synonym 'a IndyResult = "('a, IndyErrorKind) outcome"

end
