(* ===== verification/Error_Codes.thy ===== *)
theory Error_Codes
  imports Indy_Errors
begin

text \<open>
  The numeric codes of the C interface (\<open>ErrorCode\<close> of \<open>api/mod.rs\<close>) and the two conversions between
  codes and error kinds (\<open>errors/mod.rs\<close>). Errors of plugins cross the C interface as codes and come
  back as kinds, which is why the conversions must agree; the lemmas say exactly where they do.
\<close>

section \<open>Codes and conversions\<close>

text \<open>The codes of the C interface; each carries the name of the source with the prefix \<open>EC_\<close>.\<close>

datatype (plugins only: code) ErrorCode =
    EC_Success
  | EC_CommonInvalidParam1
  | EC_CommonInvalidParam2
  | EC_CommonInvalidParam3
  | EC_CommonInvalidParam4
  | EC_CommonInvalidParam5
  | EC_CommonInvalidParam6
  | EC_CommonInvalidParam7
  | EC_CommonInvalidParam8
  | EC_CommonInvalidParam9
  | EC_CommonInvalidParam10
  | EC_CommonInvalidParam11
  | EC_CommonInvalidParam12
  | EC_CommonInvalidState
  | EC_CommonInvalidStructure
  | EC_CommonIOError
  | EC_CommonInvalidParam13
  | EC_CommonInvalidParam14
  | EC_CommonInvalidParam15
  | EC_CommonInvalidParam16
  | EC_CommonInvalidParam17
  | EC_CommonInvalidParam18
  | EC_CommonInvalidParam19
  | EC_CommonInvalidParam20
  | EC_CommonInvalidParam21
  | EC_CommonInvalidParam22
  | EC_CommonInvalidParam23
  | EC_CommonInvalidParam24
  | EC_CommonInvalidParam25
  | EC_CommonInvalidParam26
  | EC_CommonInvalidParam27
  | EC_WalletInvalidHandle
  | EC_WalletUnknownTypeError
  | EC_WalletTypeAlreadyRegisteredError
  | EC_WalletAlreadyExistsError
  | EC_WalletNotFoundError
  | EC_WalletIncompatiblePoolError
  | EC_WalletAlreadyOpenedError
  | EC_WalletAccessFailed
  | EC_WalletInputError
  | EC_WalletDecodingError
  | EC_WalletStorageError
  | EC_WalletEncryptionError
  | EC_WalletItemNotFound
  | EC_WalletItemAlreadyExists
  | EC_WalletQueryError
  | EC_PoolLedgerNotCreatedError
  | EC_PoolLedgerInvalidPoolHandle
  | EC_PoolLedgerTerminated
  | EC_LedgerNoConsensusError
  | EC_LedgerInvalidTransaction
  | EC_LedgerSecurityError
  | EC_PoolLedgerConfigAlreadyExistsError
  | EC_PoolLedgerTimeout
  | EC_PoolIncompatibleProtocolVersion
  | EC_LedgerNotFound
  | EC_AnoncredsRevocationRegistryFullError
  | EC_AnoncredsInvalidUserRevocId
  | EC_AnoncredsMasterSecretDuplicateNameError
  | EC_AnoncredsProofRejected
  | EC_AnoncredsCredentialRevoked
  | EC_AnoncredsCredDefAlreadyExistsError
  | EC_UnknownCryptoTypeError
  | EC_DidAlreadyExistsError
  | EC_PaymentUnknownMethodError
  | EC_PaymentIncompatibleMethodsError
  | EC_PaymentInsufficientFundsError
  | EC_PaymentSourceDoesNotExistError
  | EC_PaymentOperationNotSupportedError
  | EC_PaymentExtraFundsError

text \<open>The discriminant of each code (\<open>repr(i32)\<close>).\<close>

primrec error_code_num :: "ErrorCode \<Rightarrow> int" where
  "error_code_num EC_Success = 0"
| "error_code_num EC_CommonInvalidParam1 = 100"
| "error_code_num EC_CommonInvalidParam2 = 101"
| "error_code_num EC_CommonInvalidParam3 = 102"
| "error_code_num EC_CommonInvalidParam4 = 103"
| "error_code_num EC_CommonInvalidParam5 = 104"
| "error_code_num EC_CommonInvalidParam6 = 105"
| "error_code_num EC_CommonInvalidParam7 = 106"
| "error_code_num EC_CommonInvalidParam8 = 107"
| "error_code_num EC_CommonInvalidParam9 = 108"
| "error_code_num EC_CommonInvalidParam10 = 109"
| "error_code_num EC_CommonInvalidParam11 = 110"
| "error_code_num EC_CommonInvalidParam12 = 111"
| "error_code_num EC_CommonInvalidState = 112"
| "error_code_num EC_CommonInvalidStructure = 113"
| "error_code_num EC_CommonIOError = 114"
| "error_code_num EC_CommonInvalidParam13 = 115"
| "error_code_num EC_CommonInvalidParam14 = 116"
| "error_code_num EC_CommonInvalidParam15 = 117"
| "error_code_num EC_CommonInvalidParam16 = 118"
| "error_code_num EC_CommonInvalidParam17 = 119"
| "error_code_num EC_CommonInvalidParam18 = 120"
| "error_code_num EC_CommonInvalidParam19 = 121"
| "error_code_num EC_CommonInvalidParam20 = 122"
| "error_code_num EC_CommonInvalidParam21 = 123"
| "error_code_num EC_CommonInvalidParam22 = 124"
| "error_code_num EC_CommonInvalidParam23 = 125"
| "error_code_num EC_CommonInvalidParam24 = 126"
| "error_code_num EC_CommonInvalidParam25 = 127"
| "error_code_num EC_CommonInvalidParam26 = 128"
| "error_code_num EC_CommonInvalidParam27 = 129"
| "error_code_num EC_WalletInvalidHandle = 200"
| "error_code_num EC_WalletUnknownTypeError = 201"
| "error_code_num EC_WalletTypeAlreadyRegisteredError = 202"
| "error_code_num EC_WalletAlreadyExistsError = 203"
| "error_code_num EC_WalletNotFoundError = 204"
| "error_code_num EC_WalletIncompatiblePoolError = 205"
| "error_code_num EC_WalletAlreadyOpenedError = 206"
| "error_code_num EC_WalletAccessFailed = 207"
| "error_code_num EC_WalletInputError = 208"
| "error_code_num EC_WalletDecodingError = 209"
| "error_code_num EC_WalletStorageError = 210"
| "error_code_num EC_WalletEncryptionError = 211"
| "error_code_num EC_WalletItemNotFound = 212"
| "error_code_num EC_WalletItemAlreadyExists = 213"
| "error_code_num EC_WalletQueryError = 214"
| "error_code_num EC_PoolLedgerNotCreatedError = 300"
| "error_code_num EC_PoolLedgerInvalidPoolHandle = 301"
| "error_code_num EC_PoolLedgerTerminated = 302"
| "error_code_num EC_LedgerNoConsensusError = 303"
| "error_code_num EC_LedgerInvalidTransaction = 304"
| "error_code_num EC_LedgerSecurityError = 305"
| "error_code_num EC_PoolLedgerConfigAlreadyExistsError = 306"
| "error_code_num EC_PoolLedgerTimeout = 307"
| "error_code_num EC_PoolIncompatibleProtocolVersion = 308"
| "error_code_num EC_LedgerNotFound = 309"
| "error_code_num EC_AnoncredsRevocationRegistryFullError = 400"
| "error_code_num EC_AnoncredsInvalidUserRevocId = 401"
| "error_code_num EC_AnoncredsMasterSecretDuplicateNameError = 404"
| "error_code_num EC_AnoncredsProofRejected = 405"
| "error_code_num EC_AnoncredsCredentialRevoked = 406"
| "error_code_num EC_AnoncredsCredDefAlreadyExistsError = 407"
| "error_code_num EC_UnknownCryptoTypeError = 500"
| "error_code_num EC_DidAlreadyExistsError = 600"
| "error_code_num EC_PaymentUnknownMethodError = 700"
| "error_code_num EC_PaymentIncompatibleMethodsError = 701"
| "error_code_num EC_PaymentInsufficientFundsError = 702"
| "error_code_num EC_PaymentSourceDoesNotExistError = 703"
| "error_code_num EC_PaymentOperationNotSupportedError = 704"
| "error_code_num EC_PaymentExtraFundsError = 705"

primrec error_code_of_kind :: "IndyErrorKind \<Rightarrow> ErrorCode" where
  "error_code_of_kind InvalidState = EC_CommonInvalidState"
| "error_code_of_kind InvalidStructure = EC_CommonInvalidStructure"
| "error_code_of_kind (InvalidParam num) =
     (if num = 1 then EC_CommonInvalidParam1
      else if num = 2 then EC_CommonInvalidParam2
      else if num = 3 then EC_CommonInvalidParam3
      else if num = 4 then EC_CommonInvalidParam4
      else if num = 5 then EC_CommonInvalidParam5
      else if num = 6 then EC_CommonInvalidParam6
      else if num = 7 then EC_CommonInvalidParam7
      else if num = 8 then EC_CommonInvalidParam8
      else if num = 9 then EC_CommonInvalidParam9
      else if num = 10 then EC_CommonInvalidParam10
      else if num = 11 then EC_CommonInvalidParam11
      else if num = 12 then EC_CommonInvalidParam12
      else if num = 13 then EC_CommonInvalidParam13
      else if num = 14 then EC_CommonInvalidParam14
      else if num = 15 then EC_CommonInvalidParam15
      else if num = 16 then EC_CommonInvalidParam16
      else if num = 17 then EC_CommonInvalidParam17
      else if num = 18 then EC_CommonInvalidParam18
      else if num = 19 then EC_CommonInvalidParam19
      else if num = 20 then EC_CommonInvalidParam20
      else if num = 21 then EC_CommonInvalidParam21
      else if num = 22 then EC_CommonInvalidParam22
      else if num = 23 then EC_CommonInvalidParam23
      else if num = 24 then EC_CommonInvalidParam24
      else if num = 25 then EC_CommonInvalidParam25
      else if num = 26 then EC_CommonInvalidParam26
      else if num = 27 then EC_CommonInvalidParam27
      else EC_CommonInvalidState)"
| "error_code_of_kind IOError = EC_CommonIOError"
| "error_code_of_kind MasterSecretDuplicateName = EC_AnoncredsMasterSecretDuplicateNameError"
| "error_code_of_kind ProofRejected = EC_AnoncredsProofRejected"
| "error_code_of_kind RevocationRegistryFull = EC_AnoncredsRevocationRegistryFullError"
| "error_code_of_kind InvalidUserRevocId = EC_AnoncredsInvalidUserRevocId"
| "error_code_of_kind CredentialRevoked = EC_AnoncredsCredentialRevoked"
| "error_code_of_kind CredDefAlreadyExists = EC_AnoncredsCredDefAlreadyExistsError"
| "error_code_of_kind NoConsensus = EC_LedgerNoConsensusError"
| "error_code_of_kind InvalidTransaction = EC_LedgerInvalidTransaction"
| "error_code_of_kind LedgerItemNotFound = EC_LedgerNotFound"
| "error_code_of_kind PoolNotCreated = EC_PoolLedgerNotCreatedError"
| "error_code_of_kind InvalidPoolHandle = EC_PoolLedgerInvalidPoolHandle"
| "error_code_of_kind PoolTerminated = EC_PoolLedgerTerminated"
| "error_code_of_kind PoolTimeout = EC_PoolLedgerTimeout"
| "error_code_of_kind PoolConfigAlreadyExists = EC_PoolLedgerConfigAlreadyExistsError"
| "error_code_of_kind PoolIncompatibleProtocolVersion = EC_PoolIncompatibleProtocolVersion"
| "error_code_of_kind UnknownCrypto = EC_UnknownCryptoTypeError"
| "error_code_of_kind InvalidWalletHandle = EC_WalletInvalidHandle"
| "error_code_of_kind UnknownWalletStorageType = EC_WalletUnknownTypeError"
| "error_code_of_kind WalletStorageTypeAlreadyRegistered = EC_WalletTypeAlreadyRegisteredError"
| "error_code_of_kind WalletAlreadyExists = EC_WalletAlreadyExistsError"
| "error_code_of_kind WalletNotFound = EC_WalletNotFoundError"
| "error_code_of_kind WalletAlreadyOpened = EC_WalletAlreadyOpenedError"
| "error_code_of_kind WalletAccessFailed = EC_WalletAccessFailed"
| "error_code_of_kind WalletEncodingError = EC_WalletDecodingError"
| "error_code_of_kind WalletStorageError = EC_WalletStorageError"
| "error_code_of_kind WalletEncryptionError = EC_WalletEncryptionError"
| "error_code_of_kind WalletItemNotFound = EC_WalletItemNotFound"
| "error_code_of_kind WalletItemAlreadyExists = EC_WalletItemAlreadyExists"
| "error_code_of_kind WalletQueryError = EC_WalletQueryError"
| "error_code_of_kind DIDAlreadyExists = EC_DidAlreadyExistsError"
| "error_code_of_kind UnknownPaymentMethodType = EC_PaymentUnknownMethodError"
| "error_code_of_kind IncompatiblePaymentMethods = EC_PaymentIncompatibleMethodsError"
| "error_code_of_kind PaymentInsufficientFunds = EC_PaymentInsufficientFundsError"
| "error_code_of_kind PaymentSourceDoesNotExist = EC_PaymentSourceDoesNotExistError"
| "error_code_of_kind PaymentOperationNotSupported = EC_PaymentOperationNotSupportedError"
| "error_code_of_kind PaymentExtraFunds = EC_PaymentExtraFundsError"

primrec error_kind_of_code :: "ErrorCode \<Rightarrow> IndyErrorKind" where
  "error_kind_of_code EC_CommonInvalidState = InvalidState"
| "error_kind_of_code EC_CommonInvalidStructure = InvalidStructure"
| "error_kind_of_code EC_CommonInvalidParam1 = InvalidParam 1"
| "error_kind_of_code EC_CommonInvalidParam2 = InvalidParam 2"
| "error_kind_of_code EC_CommonInvalidParam3 = InvalidParam 3"
| "error_kind_of_code EC_CommonInvalidParam4 = InvalidParam 4"
| "error_kind_of_code EC_CommonInvalidParam5 = InvalidParam 5"
| "error_kind_of_code EC_CommonInvalidParam6 = InvalidParam 6"
| "error_kind_of_code EC_CommonInvalidParam7 = InvalidParam 7"
| "error_kind_of_code EC_CommonInvalidParam8 = InvalidParam 8"
| "error_kind_of_code EC_CommonInvalidParam9 = InvalidParam 9"
| "error_kind_of_code EC_CommonInvalidParam10 = InvalidParam 10"
| "error_kind_of_code EC_CommonInvalidParam11 = InvalidParam 11"
| "error_kind_of_code EC_CommonInvalidParam12 = InvalidParam 12"
| "error_kind_of_code EC_CommonInvalidParam13 = InvalidParam 13"
| "error_kind_of_code EC_CommonInvalidParam14 = InvalidParam 14"
| "error_kind_of_code EC_CommonInvalidParam15 = InvalidParam 15"
| "error_kind_of_code EC_CommonInvalidParam16 = InvalidParam 16"
| "error_kind_of_code EC_CommonInvalidParam17 = InvalidParam 17"
| "error_kind_of_code EC_CommonInvalidParam18 = InvalidParam 18"
| "error_kind_of_code EC_CommonInvalidParam19 = InvalidParam 19"
| "error_kind_of_code EC_CommonInvalidParam20 = InvalidParam 20"
| "error_kind_of_code EC_CommonInvalidParam21 = InvalidParam 21"
| "error_kind_of_code EC_CommonInvalidParam22 = InvalidParam 22"
| "error_kind_of_code EC_CommonInvalidParam23 = InvalidParam 23"
| "error_kind_of_code EC_CommonInvalidParam24 = InvalidParam 24"
| "error_kind_of_code EC_CommonInvalidParam25 = InvalidParam 25"
| "error_kind_of_code EC_CommonInvalidParam26 = InvalidParam 26"
| "error_kind_of_code EC_CommonInvalidParam27 = InvalidParam 27"
| "error_kind_of_code EC_CommonIOError = IOError"
| "error_kind_of_code EC_AnoncredsMasterSecretDuplicateNameError = MasterSecretDuplicateName"
| "error_kind_of_code EC_AnoncredsProofRejected = ProofRejected"
| "error_kind_of_code EC_AnoncredsRevocationRegistryFullError = RevocationRegistryFull"
| "error_kind_of_code EC_AnoncredsInvalidUserRevocId = InvalidUserRevocId"
| "error_kind_of_code EC_AnoncredsCredentialRevoked = CredentialRevoked"
| "error_kind_of_code EC_AnoncredsCredDefAlreadyExistsError = CredDefAlreadyExists"
| "error_kind_of_code EC_LedgerNoConsensusError = NoConsensus"
| "error_kind_of_code EC_LedgerInvalidTransaction = InvalidTransaction"
| "error_kind_of_code EC_LedgerNotFound = LedgerItemNotFound"
| "error_kind_of_code EC_PoolLedgerNotCreatedError = PoolNotCreated"
| "error_kind_of_code EC_PoolLedgerInvalidPoolHandle = InvalidPoolHandle"
| "error_kind_of_code EC_PoolLedgerTerminated = PoolTerminated"
| "error_kind_of_code EC_PoolLedgerTimeout = PoolTimeout"
| "error_kind_of_code EC_PoolLedgerConfigAlreadyExistsError = PoolConfigAlreadyExists"
| "error_kind_of_code EC_PoolIncompatibleProtocolVersion = PoolIncompatibleProtocolVersion"
| "error_kind_of_code EC_UnknownCryptoTypeError = UnknownCrypto"
| "error_kind_of_code EC_WalletInvalidHandle = InvalidWalletHandle"
| "error_kind_of_code EC_WalletUnknownTypeError = UnknownWalletStorageType"
| "error_kind_of_code EC_WalletTypeAlreadyRegisteredError = WalletStorageTypeAlreadyRegistered"
| "error_kind_of_code EC_WalletAlreadyExistsError = WalletAlreadyExists"
| "error_kind_of_code EC_WalletNotFoundError = WalletNotFound"
| "error_kind_of_code EC_WalletAlreadyOpenedError = WalletAlreadyOpened"
| "error_kind_of_code EC_WalletAccessFailed = WalletAccessFailed"
| "error_kind_of_code EC_WalletDecodingError = WalletEncodingError"
| "error_kind_of_code EC_WalletStorageError = WalletStorageError"
| "error_kind_of_code EC_WalletEncryptionError = WalletEncryptionError"
| "error_kind_of_code EC_WalletItemNotFound = WalletItemNotFound"
| "error_kind_of_code EC_WalletItemAlreadyExists = WalletItemAlreadyExists"
| "error_kind_of_code EC_WalletQueryError = WalletQueryError"
| "error_kind_of_code EC_DidAlreadyExistsError = DIDAlreadyExists"
| "error_kind_of_code EC_PaymentUnknownMethodError = UnknownPaymentMethodType"
| "error_kind_of_code EC_PaymentIncompatibleMethodsError = IncompatiblePaymentMethods"
| "error_kind_of_code EC_PaymentInsufficientFundsError = PaymentInsufficientFunds"
| "error_kind_of_code EC_PaymentSourceDoesNotExistError = PaymentSourceDoesNotExist"
| "error_kind_of_code EC_PaymentOperationNotSupportedError = PaymentOperationNotSupported"
| "error_kind_of_code EC_PaymentExtraFundsError = PaymentExtraFunds"
| "error_kind_of_code EC_Success = InvalidState"
| "error_kind_of_code EC_WalletIncompatiblePoolError = InvalidState"
| "error_kind_of_code EC_WalletInputError = InvalidState"
| "error_kind_of_code EC_LedgerSecurityError = InvalidState"

text \<open>Result codes of plugin calls: \<open>Success\<close> becomes \<open>Ok ()\<close>, any other code an error.\<close>

definition result_of_code :: "ErrorCode \<Rightarrow> unit IndyResult" where
  "result_of_code err = (if err = EC_Success then Ok () else Err (error_kind_of_code err))"

fun code_of_result :: "'a IndyResult \<Rightarrow> ErrorCode option" where
  "code_of_result (Ok _) = Some EC_Success"
| "code_of_result (Err e) = Some (error_code_of_kind e)"
| "code_of_result Panic = None"

section \<open>Properties\<close>

definition lossy_codes :: "ErrorCode list" where
  "lossy_codes = [EC_Success, EC_WalletIncompatiblePoolError, EC_WalletInputError, EC_LedgerSecurityError]"

text \<open>The parameter positions the interface has a code for.\<close>

definition known_params :: "32 word list" where
  "known_params = [1, 2, 3, 4, 5, 6, 7, 8, 9, 10, 11, 12, 13, 14, 15, 16, 17, 18, 19, 20, 21, 22,
     23, 24, 25, 26, 27]"

definition representable_kind :: "IndyErrorKind \<Rightarrow> bool" where
  "representable_kind k = (case k of InvalidParam num \<Rightarrow> num \<in> set known_params | _ \<Rightarrow> True)"

lemma param_code_cases:
  "error_code_of_kind (InvalidParam num) = EC_CommonInvalidState \<or> num \<in> set known_params"
  by (simp add: known_params_def)

text \<open>
  A numeric error code that is turned into an error kind and back is unchanged, except for success
  and the three codes that have no kind of their own.
\<close>

theorem code_roundtrip: "error_code_of_kind (error_kind_of_code c) = c \<longleftrightarrow> c \<notin> set lossy_codes"
  by (cases c) (simp_all add: lossy_codes_def)

lemma known_param_roundtrip:
  "num \<in> set known_params \<Longrightarrow> error_kind_of_code (error_code_of_kind (InvalidParam num)) = InvalidParam num"
  by (auto simp: known_params_def)

lemma kind_roundtrip: "error_kind_of_code (error_code_of_kind k) = k \<longleftrightarrow> representable_kind k"
proof (cases k)
  case (InvalidParam num)
  then show ?thesis
    using param_code_cases [of num] known_param_roundtrip [of num]
    by (auto simp: representable_kind_def simp del: error_code_of_kind.simps)
qed (simp_all add: representable_kind_def)

lemma kind_never_success: "error_code_of_kind k \<noteq> EC_Success"
  by (cases k) simp_all

text \<open>
  C28: An error that crosses the C interface as a numeric code comes back as the same kind, and never as
  success, exactly when it is not an invalid parameter at a position without a code.
\<close>

theorem result_survives_code:
  "map_option result_of_code (code_of_result (Err e)) = Some (Err e) \<longleftrightarrow> representable_kind e"
  using kind_roundtrip [of e] kind_never_success [of e] by (simp add: result_of_code_def)

end
