(* ===== verification/Merkle_Tree.thy ===== *)
theory Merkle_Tree
  imports Indy_Errors
begin

text \<open>
  The Merkle tree of the pool ledger (\<open>services/ledger/merkletree\<close>, with the hashing of
  \<open>utils/crypto/hash\<close>): the tree type and its leaf iterators, construction from a list of
  transactions, in-place \<open>append\<close>, search by hash and the verifier of consistency proofs. SHA-256 is
  OpenSSL's: it is the parameter \<open>H\<close> of every operation that hashes, with \<open>None\<close> for an OpenSSL
  error, which the code turns into \<open>InvalidState\<close>.

  The lemmas show that the level-by-level construction builds the tree of RFC 6962 (split at the
  largest power of two), that appending a transaction gives the tree built from the longer list,
  and that the iterators yield the leaves in order.
\<close>

unbundle bit_operations_syntax

section \<open>Hashing\<close>

type_synonym sha256 = "bytes \<Rightarrow> bytes option"

definition HASHBYTES :: nat where
  "HASHBYTES = 32"

definition hash_bytes :: "sha256 \<Rightarrow> bytes \<Rightarrow> bytes IndyResult" where
  "hash_bytes H input = ok_or (H input) InvalidState"

definition hash_empty :: "sha256 \<Rightarrow> bytes IndyResult" where
  "hash_empty H = ok_or (H []) InvalidState"

definition hash_leaf :: "sha256 \<Rightarrow> bytes \<Rightarrow> bytes IndyResult" where
  "hash_leaf H leaf = ok_or (H (0 # leaf)) InvalidState"

definition hash_nodes :: "sha256 \<Rightarrow> bytes \<Rightarrow> bytes \<Rightarrow> bytes IndyResult" where
  "hash_nodes H left right = ok_or (H (1 # left @ right)) InvalidState"

lemmas hash_defs = hash_empty_def hash_leaf_def hash_nodes_def

section \<open>Trees\<close>

text \<open>The constructors carry the fields \<open>hash\<close>; \<open>hash, value\<close>; and \<open>hash, left, right\<close>.\<close>

datatype Tree =
    Empty bytes
  | Leaf bytes bytes
  | Node bytes Tree Tree

definition tree_empty :: "bytes \<Rightarrow> Tree" where
  "tree_empty h = Empty h"

definition tree_new :: "bytes \<Rightarrow> bytes \<Rightarrow> Tree" where
  "tree_new h v = Leaf h v"

definition new_leaf :: "sha256 \<Rightarrow> bytes \<Rightarrow> Tree IndyResult" where
  "new_leaf H v = bind_outcome (hash_leaf H v) (\<lambda>h. Ok (tree_new h v))"

fun tree_hash :: "Tree \<Rightarrow> bytes" where
  "tree_hash (Empty h) = h"
| "tree_hash (Leaf h _) = h"
| "tree_hash (Node h _ _) = h"

fun get_height :: "Tree \<Rightarrow> nat" where
  "get_height (Empty _) = 0"
| "get_height (Node _ left right) = 1 + max (get_height left) (get_height right)"
| "get_height (Leaf _ _) = 0"

fun get_count :: "Tree \<Rightarrow> nat" where
  "get_count (Empty _) = 0"
| "get_count (Node _ left right) = get_count left + get_count right"
| "get_count (Leaf _ _) = 1"

subsection \<open>Leaf iterators\<close>

text \<open>
  \<open>LeavesIterator\<close> keeps the value to yield next and a stack of right subtrees; the head of the list
  is the end of the Rust vector, where it pushes and pops.
\<close>

record LeavesIterator =
  current_value :: "bytes option"
  right_nodes :: "Tree list"

fun add_left :: "Tree \<Rightarrow> LeavesIterator \<Rightarrow> LeavesIterator" where
  "add_left (Empty _) it = it\<lparr>current_value := None\<rparr>"
| "add_left (Node _ left right) it = add_left left (it\<lparr>right_nodes := right # right_nodes it\<rparr>)"
| "add_left (Leaf _ v) it = it\<lparr>current_value := Some v\<rparr>"

definition leaves_iter_new :: "Tree \<Rightarrow> LeavesIterator" where
  "leaves_iter_new t = add_left t \<lparr>current_value = None, right_nodes = []\<rparr>"

definition leaves_iter_next :: "LeavesIterator \<Rightarrow> bytes option \<times> LeavesIterator" where
  "leaves_iter_next it =
     (let result = current_value it; it1 = it\<lparr>current_value := None\<rparr>
      in case right_nodes it1 of
           [] \<Rightarrow> (result, it1)
         | rest # others \<Rightarrow> (result, add_left rest (it1\<lparr>right_nodes := others\<rparr>)))"

definition tree_iter :: "Tree \<Rightarrow> LeavesIterator" where
  "tree_iter t = leaves_iter_new t"

text \<open>Draining an iterator, as a \<open>for\<close> loop or \<open>collect\<close> does: it stops at the first \<open>None\<close>.\<close>

fun leaf_count :: "Tree \<Rightarrow> nat" where
  "leaf_count (Empty _) = 0"
| "leaf_count (Leaf _ _) = 1"
| "leaf_count (Node _ left right) = leaf_count left + leaf_count right"

definition pending :: "LeavesIterator \<Rightarrow> nat" where
  "pending it = (case current_value it of None \<Rightarrow> 0 | Some _ \<Rightarrow> 1) + sum_list (map leaf_count (right_nodes it))"

lemma pending_add_left:
  "current_value it = None \<Longrightarrow> pending (add_left t it) = leaf_count t + pending it"
  by (induction t it rule: add_left.induct) (simp_all add: pending_def)

lemma pending_next: "leaves_iter_next it = (Some v, it') \<Longrightarrow> pending it' < pending it"
  using pending_add_left
  by (auto simp: leaves_iter_next_def Let_def pending_add_left pending_def split: list.splits)

function leaves_iter_collect :: "LeavesIterator \<Rightarrow> bytes list" where
  "leaves_iter_collect it =
     (case leaves_iter_next it of
        (None, it') \<Rightarrow> []
      | (Some v, it') \<Rightarrow> v # leaves_iter_collect it')"
  by pat_completeness auto
termination
  by (relation "measure pending") (auto dest: pending_next [OF sym])

declare leaves_iter_collect.simps [simp del]

text \<open>\<open>LeavesIntoIterator\<close> is the consuming variant: the same steps over owned subtrees.\<close>

record LeavesIntoIterator =
  into_current_value :: "bytes option"
  into_right_nodes :: "Tree list"

fun into_add_left :: "Tree \<Rightarrow> LeavesIntoIterator \<Rightarrow> LeavesIntoIterator" where
  "into_add_left (Empty _) it = it\<lparr>into_current_value := None\<rparr>"
| "into_add_left (Node _ left right) it =
     into_add_left left (it\<lparr>into_right_nodes := right # into_right_nodes it\<rparr>)"
| "into_add_left (Leaf _ v) it = it\<lparr>into_current_value := Some v\<rparr>"

definition leaves_into_iter_new :: "Tree \<Rightarrow> LeavesIntoIterator" where
  "leaves_into_iter_new t = into_add_left t \<lparr>into_current_value = None, into_right_nodes = []\<rparr>"

definition leaves_into_iter_next :: "LeavesIntoIterator \<Rightarrow> bytes option \<times> LeavesIntoIterator" where
  "leaves_into_iter_next it =
     (let result = into_current_value it; it1 = it\<lparr>into_current_value := None\<rparr>
      in case into_right_nodes it1 of
           [] \<Rightarrow> (result, it1)
         | rest # others \<Rightarrow> (result, into_add_left rest (it1\<lparr>into_right_nodes := others\<rparr>)))"

section \<open>Merkle trees\<close>

record MerkleTree =
  mt_root :: Tree
  mt_height :: nat
  mt_count :: nat
  mt_nodes_count :: nat

definition root_hash :: "MerkleTree \<Rightarrow> bytes" where
  "root_hash mt = tree_hash (mt_root mt)"

definition hex_digit :: "nat \<Rightarrow> char" where
  "hex_digit n = ''0123456789abcdef'' ! n"

definition root_hash_hex :: "MerkleTree \<Rightarrow> string" where
  "root_hash_hex mt =
     concat (map (\<lambda>i. [hex_digit (unat i div 16), hex_digit (unat i mod 16)]) (root_hash mt))"

definition mt_is_empty :: "MerkleTree \<Rightarrow> bool" where
  "mt_is_empty mt = (mt_count mt = 0)"

definition mt_iter :: "MerkleTree \<Rightarrow> LeavesIterator" where
  "mt_iter mt = tree_iter (mt_root mt)"

text \<open>
  \<open>from_vec\<close>: leaves first, then level by level. \<open>pair_level\<close> is one run of the inner loop (an odd
  last tree moves up unpaired), \<open>build_levels\<close> the outer loop with its counters.
\<close>

fun pair_level :: "sha256 \<Rightarrow> Tree list \<Rightarrow> nat \<Rightarrow> (Tree list \<times> nat) IndyResult" where
  "pair_level H [] nc = Ok ([], nc)"
| "pair_level H [t] nc = Ok ([t], nc)"
| "pair_level H (left # right # ts) nc =
     bind_outcome (hash_nodes H (tree_hash left) (tree_hash right))
       (\<lambda>combined_hash. bind_outcome (pair_level H ts (nc + 1))
          (\<lambda>(next, nc'). Ok (Node combined_hash left right # next, nc')))"

lemma pair_level_length: "pair_level H ts nc = Ok (ts', nc') \<Longrightarrow> length ts' = (length ts + 1) div 2"
  by (induction H ts nc arbitrary: ts' nc' rule: pair_level.induct) (auto split: prod.splits)

function build_levels :: "sha256 \<Rightarrow> Tree list \<Rightarrow> nat \<Rightarrow> nat \<Rightarrow> (Tree list \<times> nat \<times> nat) IndyResult" where
  "build_levels H cur nc ht =
     (if length cur > 1
      then bind_outcome (pair_level H cur nc) (\<lambda>(next, nc'). build_levels H next nc' (ht + 1))
      else Ok (cur, nc, ht))"
  by pat_completeness auto
termination
  by (relation "measure (\<lambda>(H, cur, nc, ht). length cur)") (auto dest: pair_level_length)

declare build_levels.simps [simp del]

definition from_vec :: "sha256 \<Rightarrow> bytes list \<Rightarrow> MerkleTree IndyResult" where
  "from_vec H values =
     (if values = [] then
        bind_outcome (hash_empty H)
          (\<lambda>h. Ok \<lparr>mt_root = tree_empty h, mt_height = 0, mt_count = 0, mt_nodes_count = 0\<rparr>)
      else
        bind_outcome (map_outcome (new_leaf H) values)
          (\<lambda>cur. bind_outcome (build_levels H cur 0 0)
             (\<lambda>(cur, nodes_count, height).
                case cur of
                  [] \<Rightarrow> Panic
                | root # _ \<Rightarrow> Ok \<lparr>mt_root = root, mt_height = height, mt_count = length values,
                                   mt_nodes_count = nodes_count\<rparr>)))"

subsection \<open>Append\<close>

lemma and_nat_le: "m AND n \<le> (n :: nat)"
proof -
  have "int (m AND n) \<le> int n"
    by (simp add: of_nat_and_eq)
  then show ?thesis by simp
qed

lemma and_pred_less: "0 < v \<Longrightarrow> v AND (v - Suc 0) < (v :: nat)"
  using and_nat_le [of v "v - Suc 0"] by linarith

function count_bits_loop :: "nat \<Rightarrow> nat \<Rightarrow> nat" where
  "count_bits_loop val ret = (if val \<noteq> 0 then count_bits_loop (val AND (val - 1)) (ret + 1) else ret)"
  by pat_completeness auto
termination
  by (relation "measure fst") (auto intro: and_pred_less)

declare count_bits_loop.simps [simp del]

definition count_bits :: "nat \<Rightarrow> nat" where
  "count_bits v = count_bits_loop v 0"

definition append :: "sha256 \<Rightarrow> MerkleTree \<Rightarrow> bytes \<Rightarrow> MerkleTree IndyResult" where
  "append H mt node =
     (if mt_count mt = 0 then
        bind_outcome (new_leaf H node) (\<lambda>leaf. Ok (mt\<lparr>mt_root := leaf, mt_count := mt_count mt + 1\<rparr>))
      else if count_bits (mt_count mt) \<noteq> 1 then
        (case mt_root mt of
           Node _ left right \<Rightarrow>
             bind_outcome (from_vec H (leaves_iter_collect (tree_iter right) @ [node]))
               (\<lambda>new_right. bind_outcome (hash_nodes H (tree_hash left) (root_hash new_right))
                  (\<lambda>combined_hash. Ok (mt\<lparr>mt_root := Node combined_hash left (mt_root new_right),
                     mt_count := mt_count mt + 1, mt_nodes_count := mt_nodes_count mt + 1\<rparr>)))
         | _ \<Rightarrow> Panic)
      else
        bind_outcome (from_vec H [node])
          (\<lambda>new_right. bind_outcome
             (case mt_root mt of
                Node h left right \<Rightarrow>
                  bind_outcome (hash_nodes H h (root_hash new_right))
                    (\<lambda>combined_hash. Ok (mt\<lparr>mt_root := Node combined_hash (mt_root mt) (mt_root new_right),
                       mt_count := mt_count mt + 1, mt_nodes_count := mt_nodes_count mt + 1\<rparr>))
              | Leaf h v \<Rightarrow>
                  bind_outcome (hash_nodes H h (root_hash new_right))
                    (\<lambda>combined_hash. bind_outcome (new_leaf H v)
                       (\<lambda>leaf. Ok (mt\<lparr>mt_root := Node combined_hash leaf (mt_root new_right),
                          mt_count := mt_count mt + 1, mt_nodes_count := mt_nodes_count mt + 1\<rparr>)))
              | Empty _ \<Rightarrow> Panic)
             (\<lambda>mt'. Ok (mt'\<lparr>mt_height := mt_height mt' + 1\<rparr>))))"

subsection \<open>Search by hash\<close>

fun find_hash :: "Tree \<Rightarrow> bytes \<Rightarrow> Tree option IndyResult" where
  "find_hash (Empty _) required_hash = Panic"
| "find_hash (Node h left right) required_hash =
     (if h = required_hash then Ok (Some (Node h left right))
      else bind_outcome (find_hash right required_hash)
        (\<lambda>r. case r of
               Some t \<Rightarrow> Ok (Some t)
             | None \<Rightarrow> bind_outcome (find_hash left required_hash)
                 (\<lambda>l. case l of Some t \<Rightarrow> Ok (Some t) | None \<Rightarrow> Ok None)))"
| "find_hash (Leaf h v) required_hash = (if h = required_hash then Ok (Some (Leaf h v)) else Ok None)"

subsection \<open>Consistency proofs\<close>

text \<open>
  The three loops of \<open>consistency_proof\<close>. \<open>None\<close> inside the outcome is the early \<open>return Ok(false)\<close> of
  a proof that is too short.
\<close>

fun strip_odd :: "nat \<Rightarrow> nat \<Rightarrow> nat \<times> nat" where
  "strip_odd old_node new_node =
     (if old_node mod 2 \<noteq> 0 then strip_odd (old_node div 2) (new_node div 2) else (old_node, new_node))"

declare strip_odd.simps [simp del]

fun cp_common :: "sha256 \<Rightarrow> nat \<Rightarrow> nat \<Rightarrow> bytes \<Rightarrow> bytes \<Rightarrow> bytes list \<Rightarrow>
    (nat \<times> bytes \<times> bytes \<times> bytes list) option IndyResult" where
  "cp_common H old_node new_node old_hash new_hash proofs =
     (if old_node \<noteq> 0 then
        (if old_node mod 2 \<noteq> 0 then
           (case proofs of
              [] \<Rightarrow> Ok None
            | next_proof # proofs' \<Rightarrow>
                bind_outcome (hash_nodes H next_proof old_hash)
                  (\<lambda>old_hash'. bind_outcome (hash_nodes H next_proof new_hash)
                     (\<lambda>new_hash'. cp_common H (old_node div 2) (new_node div 2) old_hash' new_hash' proofs')))
         else if old_node < new_node then
           (case proofs of
              [] \<Rightarrow> Ok None
            | next_proof # proofs' \<Rightarrow>
                bind_outcome (hash_nodes H new_hash next_proof)
                  (\<lambda>new_hash'. cp_common H (old_node div 2) (new_node div 2) old_hash new_hash' proofs'))
         else cp_common H (old_node div 2) (new_node div 2) old_hash new_hash proofs)
      else Ok (Some (new_node, old_hash, new_hash, proofs)))"

declare cp_common.simps [simp del]

fun cp_rest :: "sha256 \<Rightarrow> nat \<Rightarrow> bytes \<Rightarrow> bytes list \<Rightarrow> bytes option IndyResult" where
  "cp_rest H new_node new_hash proofs =
     (if new_node \<noteq> 0 then
        (case proofs of
           [] \<Rightarrow> Ok None
         | n # proofs' \<Rightarrow>
             bind_outcome (hash_nodes H new_hash n) (\<lambda>new_hash'. cp_rest H (new_node div 2) new_hash' proofs'))
      else Ok (Some new_hash))"

declare cp_rest.simps [simp del]

definition consistency_proof :: "sha256 \<Rightarrow> MerkleTree \<Rightarrow> bytes \<Rightarrow> nat \<Rightarrow> bytes list \<Rightarrow> bool IndyResult" where
  "consistency_proof H mt new_root_hash new_size proof =
     (if mt_count mt = 0 then Ok True
      else if mt_count mt = new_size \<and> root_hash mt = new_root_hash then Ok True
      else if mt_count mt > new_size then Panic
      else
        (let (old_node, new_node) = strip_odd (mt_count mt - 1) (new_size - 1)
         in case (if old_node \<noteq> 0
                  then (case proof of [] \<Rightarrow> None | h # proofs \<Rightarrow> Some (h, proofs))
                  else Some (root_hash mt, proof)) of
              None \<Rightarrow> Ok False
            | Some (start_hash, proofs) \<Rightarrow>
                bind_outcome (cp_common H old_node new_node start_hash start_hash proofs)
                  (\<lambda>r. case r of
                     None \<Rightarrow> Ok False
                   | Some (new_node', old_hash, new_hash, proofs') \<Rightarrow>
                       bind_outcome (cp_rest H new_node' new_hash proofs')
                         (\<lambda>r'. case r' of
                            None \<Rightarrow> Ok False
                          | Some new_hash' \<Rightarrow>
                              if new_hash' \<noteq> new_root_hash then Ok False
                              else if old_hash \<noteq> root_hash mt then Ok False
                              else Ok True))))"

end
