(* ===== verification/Append_Log.thy ===== *)
theory Append_Log
  imports Indy_Errors
begin

text \<open>
  The interface through which the pool client uses the ledger tree: a tree is built from a list of
  transactions and grows by appending one. Every client loop (reading the genesis file, reading the
  cache, applying a catch-up reply) is a run of \<open>append_all\<close>; the locale promises what such a run
  yields in terms of \<open>build\<close>.
\<close>

fun append_all :: "('t \<Rightarrow> 'a \<Rightarrow> 't IndyResult) \<Rightarrow> 't \<Rightarrow> 'a list \<Rightarrow> 't IndyResult" where
  "append_all app t [] = Ok t"
| "append_all app t (x # xs) = bind_outcome (app t x) (\<lambda>t'. append_all app t' xs)"

lemma append_all_append:
  "append_all app t (xs @ ys) = bind_outcome (append_all app t xs) (\<lambda>t'. append_all app t' ys)"
  by (induction xs arbitrary: t) (auto simp: bind_assoc)

locale append_log =
  fixes build :: "'a list \<Rightarrow> 't IndyResult"
    and app :: "'t \<Rightarrow> 'a \<Rightarrow> 't IndyResult"
  assumes app_build: "build xs = Ok t \<Longrightarrow> app t x = build (xs @ [x])"
begin

lemma append_all_build:
  "build xs = Ok t \<Longrightarrow> append_all app t ys = Ok t' \<Longrightarrow> build (xs @ ys) = Ok t'"
proof (induction ys arbitrary: xs t)
  case (Cons y ys)
  then obtain u where "app t y = Ok u" "append_all app u ys = Ok t'" by auto
  with Cons.IH [of "xs @ [y]" u] app_build [OF Cons.prems(1)] show ?case by simp
qed simp

text \<open>A run fails only where building a longer and longer list fails.\<close>

lemma append_all_total:
  "build xs = Ok t \<Longrightarrow> (\<And>n. n \<le> length ys \<Longrightarrow> is_ok (build (xs @ take n ys))) \<Longrightarrow>
   append_all app t ys = build (xs @ ys)"
proof (induction ys arbitrary: xs t)
  case (Cons y ys)
  from Cons.prems(2) [of 1] have "is_ok (build (xs @ [y]))" by simp
  then obtain u where u: "build (xs @ [y]) = Ok u" using is_ok_val by blast
  have "is_ok (build ((xs @ [y]) @ take n ys))" if "n \<le> length ys" for n
    using Cons.prems(2) [of "Suc n"] that by simp
  with Cons.IH [OF u] u app_build [OF Cons.prems(1)] show ?case by simp
qed simp

end

end
