(* ===== verification/Merkle_Spec.thy ===== *)
theory Merkle_Spec
  imports Merkle_Tree Append_Log
begin

text \<open>
  The Merkle tree hash of RFC 6962 as the abstract specification of \<open>Merkle_Tree\<close>: a list of two or
  more values is split at the largest power of two below its length. \<open>from_vec\<close> builds that tree
  although it pairs trees level by level, and \<open>append\<close> builds the tree of the longer list although it
  rebuilds only the right subtree. \<open>shape\<close> trees (without hashes) and \<open>decorate\<close> (which adds them)
  carry the proofs.
\<close>

section \<open>Shapes\<close>

datatype shape = SLeaf bytes | SNode shape shape

fun shape_leaves :: "shape \<Rightarrow> bytes list" where
  "shape_leaves (SLeaf v) = [v]"
| "shape_leaves (SNode l r) = shape_leaves l @ shape_leaves r"

fun decorate :: "sha256 \<Rightarrow> shape \<Rightarrow> Tree IndyResult" where
  "decorate H (SLeaf v) = new_leaf H v"
| "decorate H (SNode l r) =
     bind_outcome (decorate H l) (\<lambda>l'. bind_outcome (decorate H r)
       (\<lambda>r'. bind_outcome (hash_nodes H (tree_hash l') (tree_hash r')) (\<lambda>h. Ok (Node h l' r'))))"

lemma new_leaf_cases: "new_leaf H v = Err InvalidState \<or> (\<exists>h. new_leaf H v = Ok (Leaf h v))"
  by (cases "H (0 # v)") (simp_all add: new_leaf_def hash_leaf_def tree_new_def)

lemma hash_nodes_cases: "hash_nodes H l r = Err InvalidState \<or> (\<exists>h. hash_nodes H l r = Ok h)"
  by (cases "H (1 # l @ r)") (simp_all add: hash_nodes_def)

lemma decorate_cases: "decorate H s = Err InvalidState \<or> (\<exists>t. decorate H s = Ok t)"
proof (induction s)
  case (SLeaf v)
  then show ?case using new_leaf_cases [of H v] by auto
next
  case (SNode l r)
  then show ?case
    using hash_nodes_cases [of H "tree_hash (THE t. decorate H l = Ok t)" "tree_hash (THE t. decorate H r = Ok t)"]
    by (elim disjE exE) auto
qed

lemma decorate_not_Ok: "\<not> is_ok (decorate H s) \<longleftrightarrow> decorate H s = Err InvalidState"
  using decorate_cases [of H s] by auto

subsection \<open>Pairing levels of shapes\<close>

fun pairup :: "shape list \<Rightarrow> shape list" where
  "pairup [] = []"
| "pairup [s] = [s]"
| "pairup (l # r # ss) = SNode l r # pairup ss"

lemma length_pairup [simp]: "length (pairup ss) = (length ss + 1) div 2"
  by (induction ss rule: pairup.induct) auto

function build :: "shape list \<Rightarrow> shape" where
  "build ss = (if length ss > 1 then build (pairup ss) else hd ss)"
  by pat_completeness auto
termination
  by (relation "measure length") auto

declare build.simps [simp del]

lemma build_single [simp]: "build [s] = s"
  by (simp add: build.simps)

lemma build_step: "length ss > 1 \<Longrightarrow> build ss = build (pairup ss)"
  by (simp add: build.simps)

lemma pairup_eq_Nil [simp]: "pairup ss = [] \<longleftrightarrow> ss = []"
  by (cases ss rule: pairup.cases) auto

lemma build_pairup [simp]: "ss \<noteq> [] \<Longrightarrow> build (pairup ss) = build ss"
proof (cases "length ss > 1")
  case False
  assume "ss \<noteq> []"
  with False show ?thesis by (cases ss rule: pairup.cases) auto
qed (simp only: build_step)

lemma decorate_pairup_all_ok:
  "(\<forall>s \<in> set (pairup ss). is_ok (decorate H s)) \<Longrightarrow> (\<forall>s \<in> set ss. is_ok (decorate H s))"
  by (induction ss rule: pairup.induct) (auto simp: is_ok_def split: outcome.splits)

lemma decorate_build_all_ok:
  "ss \<noteq> [] \<Longrightarrow> is_ok (decorate H (build ss)) \<Longrightarrow> (\<forall>s \<in> set ss. is_ok (decorate H s))"
proof (induction ss rule: build.induct)
  case (1 ss)
  show ?case
  proof (cases "length ss > 1")
    case True
    have "\<forall>s \<in> set (pairup ss). is_ok (decorate H s)"
      using "1.IH" [OF True] "1.prems" by simp
    then show ?thesis by (rule decorate_pairup_all_ok)
  next
    case False
    with "1.prems" show ?thesis by (cases ss rule: pairup.cases) auto
  qed
qed

lemma map_decorate_cases:
  "map_outcome (decorate H) ss = Err InvalidState \<and> (\<exists>s \<in> set ss. \<not> is_ok (decorate H s)) \<or>
   (\<exists>ts. map_outcome (decorate H) ss = Ok ts)"
proof (induction ss)
  case (Cons s ss)
  show ?case using Cons decorate_cases [of H s] by auto
qed simp

lemma decorate_build_Err:
  "ss \<noteq> [] \<Longrightarrow> map_outcome (decorate H) ss = Err e \<Longrightarrow> decorate H (build ss) = Err e"
  using map_decorate_cases [of H ss] decorate_build_all_ok [of ss H] decorate_not_Ok [of H "build ss"]
  by auto

lemma pair_level_decorate:
  "map_outcome (decorate H) ss = Ok ts \<Longrightarrow>
   pair_level H ts nc = bind_outcome (map_outcome (decorate H) (pairup ss)) (\<lambda>ts'. Ok (ts', nc + length ss div 2))"
proof (induction ss arbitrary: ts nc rule: pairup.induct)
  case (3 l r ss)
  then obtain l' r' ts' where l: "decorate H l = Ok l'" and r: "decorate H r = Ok r'"
    and ts': "map_outcome (decorate H) ss = Ok ts'" and ts: "ts = l' # r' # ts'"
    by auto
  show ?case
    using hash_nodes_cases [of H "tree_hash l'" "tree_hash r'"] map_decorate_cases [of H "pairup ss"]
    by (elim disjE exE conjE) (simp_all add: l r ts "3.IH" [OF ts'])
qed auto

fun levels :: "nat \<Rightarrow> nat" where
  "levels n = (if n \<le> 1 then 0 else 1 + levels ((n + 1) div 2))"

declare levels.simps [simp del]

lemma build_levels_decorate:
  "map_outcome (decorate H) ss = Ok ts \<Longrightarrow> ss \<noteq> [] \<Longrightarrow>
   build_levels H ts nc ht =
     bind_outcome (decorate H (build ss)) (\<lambda>t. Ok ([t], nc + length ss - 1, ht + levels (length ss)))"
proof (induction ss arbitrary: ts nc ht rule: build.induct)
  case (1 ss)
  have len: "length ts = length ss"
    using "1.prems"(1) by (simp add: map_outcome_Ok list_all2_lengthD)
  show ?case
  proof (cases "length ss > 1")
    case True
    then have nz: "pairup ss \<noteq> []" by auto
    have step: "build_levels H ts nc ht =
        bind_outcome (map_outcome (decorate H) (pairup ss))
          (\<lambda>ts'. build_levels H ts' (nc + length ss div 2) (ht + 1))"
      using True len pair_level_decorate [OF "1.prems"(1), of nc]
      by (cases "map_outcome (decorate H) (pairup ss)") (simp_all add: build_levels.simps [of H ts])
    have arith: "nc + length ss div 2 + (length ss + 1) div 2 - 1 = nc + length ss - 1" by linarith
    show ?thesis
    proof (cases "map_outcome (decorate H) (pairup ss)")
      case (Ok ts')
      with step "1.IH" [OF True Ok nz] "1.prems"(2) True arith show ?thesis
        by (simp add: levels.simps [of "length ss"] add.assoc)
    next
      case (Err e)
      with step decorate_build_Err [OF nz Err] "1.prems"(2) show ?thesis by simp
    next
      case Panic
      with map_decorate_cases [of H "pairup ss"] show ?thesis by auto
    qed
  next
    case False
    with "1.prems" len show ?thesis
      by (cases ss rule: pairup.cases) (auto simp: build_levels.simps [of H] levels.simps)
  qed
qed

lemma map_new_leaf: "map_outcome (new_leaf H) xs = map_outcome (decorate H) (map SLeaf xs)"
  by (induction xs) auto

lemma from_vec_decorate:
  assumes "xs \<noteq> []"
  shows "from_vec H xs =
     bind_outcome (decorate H (build (map SLeaf xs)))
       (\<lambda>t. Ok \<lparr>mt_root = t, mt_height = levels (length xs), mt_count = length xs,
               mt_nodes_count = length xs - 1\<rparr>)"
proof -
  let ?ss = "map SLeaf xs"
  have ne: "?ss \<noteq> []" using assms by simp
  consider ts where "map_outcome (decorate H) ?ss = Ok ts" | e where "map_outcome (decorate H) ?ss = Err e"
    using map_decorate_cases [of H ?ss] by blast
  then show ?thesis
  proof cases
    case 1
    then show ?thesis
      using assms build_levels_decorate [OF 1 ne, of 0 0] decorate_cases [of H "build ?ss"]
      by (auto simp: from_vec_def map_new_leaf)
  next
    case 2
    then show ?thesis
      using assms decorate_build_Err [OF ne 2] by (simp add: from_vec_def map_new_leaf)
  qed
qed

section \<open>The split of RFC 6962\<close>

text \<open>The largest power of two below \<open>n\<close>, for \<open>n\<close> at least 2.\<close>

fun lp2 :: "nat \<Rightarrow> nat" where
  "lp2 n = (if n \<le> 2 then 1 else 2 * lp2 ((n + 1) div 2))"

declare lp2.simps [simp del]

lemma lp2_bounds: "2 \<le> n \<Longrightarrow> lp2 n < n \<and> n \<le> 2 * lp2 n"
proof (induction n rule: lp2.induct)
  case (1 n)
  show ?case
  proof (cases "n \<le> 2")
    case True
    with "1.prems" show ?thesis by (simp add: lp2.simps)
  next
    case False
    with "1.IH" have "lp2 ((n + 1) div 2) < (n + 1) div 2 \<and> (n + 1) div 2 \<le> 2 * lp2 ((n + 1) div 2)"
      by simp
    then have "2 * lp2 ((n + 1) div 2) < n" "n \<le> 2 * (2 * lp2 ((n + 1) div 2))"
      by linarith+
    with False show ?thesis by (simp add: lp2.simps [of n])
  qed
qed

lemma lp2_power: "\<exists>j. lp2 n = 2 ^ j"
proof (induction n rule: lp2.induct)
  case (1 n)
  show ?case
  proof (cases "n \<le> 2")
    case True
    then have "lp2 n = 2 ^ 0" by (simp add: lp2.simps)
    then show ?thesis ..
  next
    case False
    with "1.IH" obtain j where "lp2 ((n + 1) div 2) = 2 ^ j" by auto
    with False have "lp2 n = 2 ^ Suc j" by (simp add: lp2.simps [of n])
    then show ?thesis ..
  qed
qed

lemma lp2_even: "2 < n \<Longrightarrow> even (lp2 n)"
  by (simp add: lp2.simps)

lemma lp2_pos: "0 < lp2 n"
  using lp2_power [of n] by auto

lemma power_between_unique:
  fixes i j :: nat
  assumes "(2::nat) ^ i < n" "n \<le> 2 * 2 ^ i" "2 ^ j < n" "n \<le> 2 * 2 ^ j"
  shows "i = j"
proof -
  from assms have "(2::nat) ^ i < 2 ^ Suc j" "(2::nat) ^ j < 2 ^ Suc i"
    by simp_all
  then have "i < Suc j" "j < Suc i"
    using nat_power_less_imp_less [of 2 i "Suc j"] nat_power_less_imp_less [of 2 j "Suc i"] by simp_all
  then show ?thesis by simp
qed

lemma lp2_unique: "2 ^ i < n \<Longrightarrow> n \<le> 2 * 2 ^ i \<Longrightarrow> lp2 n = 2 ^ i"
proof -
  assume a: "2 ^ i < n" "n \<le> 2 * 2 ^ i"
  then have "2 \<le> n" by (metis Suc_1 Suc_leI le_less_trans one_le_numeral one_le_power)
  obtain j where j: "lp2 n = 2 ^ j" using lp2_power by blast
  with lp2_bounds [OF \<open>2 \<le> n\<close>] a have "i = j" by (intro power_between_unique [of i n j]) simp_all
  with j show ?thesis by simp
qed

lemma lp2_Suc_power: "lp2 (Suc (2 ^ j)) = 2 ^ j"
  by (rule lp2_unique) simp_all

lemma lp2_Suc_same: "2 \<le> n \<Longrightarrow> (\<forall>j. n \<noteq> 2 ^ j) \<Longrightarrow> lp2 (Suc n) = lp2 n"
proof -
  assume n: "2 \<le> n" and np: "\<forall>j. n \<noteq> 2 ^ j"
  obtain j where j: "lp2 n = 2 ^ j" using lp2_power by blast
  with lp2_bounds [OF n] np have "2 ^ j < n" "n < 2 * 2 ^ j"
    by (auto simp: le_less) (metis power_Suc)
  then have "lp2 (Suc n) = 2 ^ j" by (intro lp2_unique) simp_all
  with j show ?thesis by simp
qed

lemma levels_lp2: "2 \<le> n \<Longrightarrow> 2 ^ levels n = 2 * lp2 n"
proof (induction n rule: levels.induct)
  case (1 n)
  show ?case
  proof (cases "n = 2")
    case True
    then show ?thesis by (simp add: levels.simps lp2.simps)
  next
    case False
    with "1.prems" have "2 < n" by simp
    then have "2 ^ levels ((n + 1) div 2) = 2 * lp2 ((n + 1) div 2)"
      by (intro "1.IH") simp_all
    with \<open>2 < n\<close> show ?thesis by (simp add: levels.simps [of n] lp2.simps [of n])
  qed
qed

lemma levels_Suc_power: "levels (Suc (2 ^ j)) = Suc (levels (2 ^ j))"
proof (cases j)
  case 0
  then show ?thesis by (simp add: levels.simps)
next
  case (Suc i)
  have "lp2 (2 ^ j) = 2 ^ i" using Suc by (intro lp2_unique) simp_all
  moreover have "2 \<le> (2::nat) ^ j" using Suc by simp
  ultimately have "(2::nat) ^ levels (2 ^ j) = 2 ^ j"
    using levels_lp2 [of "2 ^ j"] Suc by simp
  moreover have "(2::nat) ^ levels (Suc (2 ^ j)) = 2 * 2 ^ j"
    using levels_lp2 [of "Suc (2 ^ j)"] lp2_Suc_power [of j] by simp
  ultimately have "(2::nat) ^ levels (Suc (2 ^ j)) = 2 ^ Suc (levels (2 ^ j))" by simp
  then show ?thesis by (simp only: power_inject_exp)
qed

lemma levels_Suc_same: "2 \<le> n \<Longrightarrow> (\<forall>j. n \<noteq> 2 ^ j) \<Longrightarrow> levels (Suc n) = levels n"
proof -
  assume n: "2 \<le> n" and np: "\<forall>j. n \<noteq> 2 ^ j"
  have "(2::nat) ^ levels (Suc n) = 2 ^ levels n"
    using levels_lp2 [OF n] levels_lp2 [of "Suc n"] n lp2_Suc_same [OF n np] by simp
  then show ?thesis by (simp only: power_inject_exp)
qed

subsection \<open>Pairing level by level splits at the largest power of two\<close>

lemma pairup_append: "even (length xs) \<Longrightarrow> pairup (xs @ ys) = pairup xs @ pairup ys"
  by (induction xs rule: pairup.induct) auto

lemma pairup_take_drop:
  assumes "even k" "k \<le> length ss"
  shows "take (k div 2) (pairup ss) = pairup (take k ss)"
    and "drop (k div 2) (pairup ss) = pairup (drop k ss)"
proof -
  have "pairup ss = pairup (take k ss) @ pairup (drop k ss)"
    using pairup_append [of "take k ss" "drop k ss"] assms by simp
  moreover have "length (pairup (take k ss)) = k div 2"
    using assms by simp
  ultimately show "take (k div 2) (pairup ss) = pairup (take k ss)"
    and "drop (k div 2) (pairup ss) = pairup (drop k ss)"
    by simp_all
qed

lemma build_split:
  "2 \<le> length ss \<Longrightarrow>
   build ss = SNode (build (take (lp2 (length ss)) ss)) (build (drop (lp2 (length ss)) ss))"
proof (induction ss rule: build.induct)
  case (1 ss)
  let ?k = "lp2 (length ss)"
  have k: "?k < length ss" "length ss \<le> 2 * ?k"
    using lp2_bounds [OF "1.prems"] by simp_all
  show ?case
  proof (cases "length ss = 2")
    case True
    then show ?thesis by (cases ss rule: pairup.cases) (auto simp: lp2.simps build.simps [of "[_, _]"])
  next
    case False
    with "1.prems" have n: "2 < length ss" by simp
    have half: "lp2 (length (pairup ss)) = ?k div 2"
      using n by (simp add: lp2.simps [of "length ss"])
    have "build ss = build (pairup ss)"
      using n by (simp only: build_step)
    also have "\<dots> = SNode (build (take (?k div 2) (pairup ss))) (build (drop (?k div 2) (pairup ss)))"
      using "1.IH" n half by simp
    also have "\<dots> = SNode (build (pairup (take ?k ss))) (build (pairup (drop ?k ss)))"
      using pairup_take_drop [OF lp2_even [OF n]] k by simp
    also have "\<dots> = SNode (build (take ?k ss)) (build (drop ?k ss))"
      using k lp2_pos [of "length ss"] n by (subst (1 2) build_pairup) auto
    finally show ?thesis .
  qed
qed

section \<open>The Merkle tree hash\<close>

function mth :: "sha256 \<Rightarrow> bytes list \<Rightarrow> bytes option" where
  "mth H xs =
     (if xs = [] then H []
      else if length xs = 1 then H (0 # hd xs)
      else Option.bind (mth H (take (lp2 (length xs)) xs))
        (\<lambda>l. Option.bind (mth H (drop (lp2 (length xs)) xs)) (\<lambda>r. H (1 # l @ r))))"
  by pat_completeness auto
termination
proof (relation "measure (\<lambda>(H, xs). length xs)", goal_cases)
  case (2 H xs)
  then have "2 \<le> length xs" by (cases xs) (auto simp: Suc_le_eq)
  with lp2_bounds [OF this] show ?case by simp
next
  case (3 H xs l)
  then show ?case using lp2_pos [of "length xs"] by (cases xs) auto
qed simp

declare mth.simps [simp del]

lemma two_le_length: "xs \<noteq> [] \<Longrightarrow> length xs \<noteq> 1 \<Longrightarrow> 2 \<le> length xs"
  by (cases xs) (auto simp: Suc_le_eq)

lemma mth_split:
  "2 \<le> length xs \<Longrightarrow>
   mth H xs = Option.bind (mth H (take (lp2 (length xs)) xs))
     (\<lambda>l. Option.bind (mth H (drop (lp2 (length xs)) xs)) (\<lambda>r. H (1 # l @ r)))"
  by (subst mth.simps) auto

lemma mth_single [simp]: "mth H [x] = H (0 # x)"
  by (simp add: mth.simps)

lemma decorate_hash:
  "xs \<noteq> [] \<Longrightarrow>
   bind_outcome (decorate H (build (map SLeaf xs))) (\<lambda>t. Ok (tree_hash t)) = ok_or (mth H xs) InvalidState"
proof (induction H xs rule: mth.induct)
  case (1 H xs)
  let ?k = "lp2 (length xs)"
  show ?case
  proof (cases "length xs = 1")
    case True
    then obtain x where "xs = [x]" by (auto simp: length_Suc_conv)
    then show ?thesis
      by (cases "H (0 # x)") (simp_all add: new_leaf_def hash_leaf_def tree_new_def)
  next
    case False
    with "1.prems" have n: "2 \<le> length xs" by (rule two_le_length)
    have sub: "take ?k xs \<noteq> []" "drop ?k xs \<noteq> []"
      using n lp2_bounds [OF n] lp2_pos [of "length xs"] by auto
    note IH = "1.IH"(1) [OF "1.prems" False sub(1)] "1.IH"(2) [OF "1.prems" False _ sub(2)]
    have b: "build (map SLeaf xs) = SNode (build (map SLeaf (take ?k xs))) (build (map SLeaf (drop ?k xs)))"
      using build_split [of "map SLeaf xs"] n by (simp add: take_map drop_map)
    show ?thesis
    proof (cases "mth H (take ?k xs)")
      case None
      with IH(1) decorate_cases [of H "build (map SLeaf (take ?k xs))"] show ?thesis
        by (auto simp: b mth_split [OF n])
    next
      case (Some l)
      then obtain tl where tl: "decorate H (build (map SLeaf (take ?k xs))) = Ok tl" "tree_hash tl = l"
        using IH(1) by auto
      show ?thesis
      proof (cases "mth H (drop ?k xs)")
        case None
        with IH(2) tl Some decorate_cases [of H "build (map SLeaf (drop ?k xs))"] show ?thesis
          by (auto simp: b mth_split [OF n])
      next
        case (Some r)
        then obtain tr where "decorate H (build (map SLeaf (drop ?k xs))) = Ok tr" "tree_hash tr = r"
          using IH(2) tl \<open>mth H (take ?k xs) = Some l\<close> by auto
        with tl Some \<open>mth H (take ?k xs) = Some l\<close> show ?thesis
          by (cases "H (1 # l @ r)") (simp_all add: b mth_split [OF n] hash_nodes_def)
      qed
    qed
  qed
qed

lemma from_vec_root: "bind_outcome (from_vec H xs) (\<lambda>mt. Ok (root_hash mt)) = ok_or (mth H xs) InvalidState"
proof (cases "xs = []")
  case True
  then show ?thesis
    by (cases "H []") (simp_all add: from_vec_def hash_empty_def mth.simps root_hash_def tree_empty_def)
next
  case False
  then show ?thesis
    using decorate_hash [OF False, of H] by (simp add: from_vec_decorate bind_assoc root_hash_def)
qed

lemma from_vec_Ok:
  assumes "from_vec H xs = Ok mt"
  shows "mth H xs = Some (root_hash mt)" "mt_count mt = length xs"
    "mt_height mt = levels (length xs)" "mt_nodes_count mt = length xs - 1"
proof -
  show "mth H xs = Some (root_hash mt)"
    using from_vec_root [of H xs] assms by (cases "mth H xs") auto
  have "mt_count mt = length xs \<and> mt_height mt = levels (length xs) \<and> mt_nodes_count mt = length xs - 1"
  proof (cases "xs = []")
    case True
    with assms show ?thesis by (auto simp: from_vec_def levels.simps [of 0])
  next
    case False
    from assms [unfolded from_vec_decorate [OF False]] show ?thesis by auto
  qed
  then show "mt_count mt = length xs" "mt_height mt = levels (length xs)" "mt_nodes_count mt = length xs - 1"
    by blast+
qed

section \<open>Leaf iterators\<close>

fun no_empty :: "Tree \<Rightarrow> bool" where
  "no_empty (Empty _) = False"
| "no_empty (Leaf _ _) = True"
| "no_empty (Node _ l r) = (no_empty l \<and> no_empty r)"

fun leaves :: "Tree \<Rightarrow> bytes list" where
  "leaves (Empty _) = []"
| "leaves (Leaf _ v) = [v]"
| "leaves (Node _ l r) = leaves l @ leaves r"

definition iter_flat :: "LeavesIterator \<Rightarrow> bytes list" where
  "iter_flat it =
     (case current_value it of None \<Rightarrow> [] | Some v \<Rightarrow> v # concat (map leaves (right_nodes it)))"

lemma add_left_flat:
  "no_empty t \<Longrightarrow> iter_flat (add_left t it) = leaves t @ concat (map leaves (right_nodes it))"
  by (induction t it rule: add_left.induct) (simp_all add: iter_flat_def)

lemma add_left_no_empty:
  "no_empty t \<Longrightarrow> \<forall>s \<in> set (right_nodes it). no_empty s \<Longrightarrow> \<forall>s \<in> set (right_nodes (add_left t it)). no_empty s"
  by (induction t it rule: add_left.induct) auto

lemma collect_flat:
  "\<forall>s \<in> set (right_nodes it). no_empty s \<Longrightarrow> leaves_iter_collect it = iter_flat it"
proof (induction it rule: leaves_iter_collect.induct)
  case (1 it)
  show ?case
  proof (cases "current_value it")
    case None
    then show ?thesis
      by (subst leaves_iter_collect.simps) (auto simp: leaves_iter_next_def iter_flat_def Let_def split: list.splits)
  next
    case (Some v)
    show ?thesis
    proof (cases "right_nodes it")
      case Nil
      then have nx: "leaves_iter_next it = (Some v, it\<lparr>current_value := None\<rparr>)"
        by (simp add: leaves_iter_next_def Some)
      have "leaves_iter_collect (it\<lparr>current_value := None\<rparr>) = []"
        by (subst leaves_iter_collect.simps) (simp add: leaves_iter_next_def Nil)
      with nx show ?thesis
        by (subst leaves_iter_collect.simps) (simp add: iter_flat_def Some Nil)
    next
      case (Cons s ss)
      let ?it' = "add_left s (it\<lparr>current_value := None, right_nodes := ss\<rparr>)"
      have nx: "leaves_iter_next it = (Some v, ?it')"
        by (simp add: leaves_iter_next_def Some Cons)
      have "leaves_iter_collect ?it' = iter_flat ?it'"
        using "1.prems" Cons by (intro "1.IH" [OF nx [symmetric]] add_left_no_empty) simp_all
      with nx "1.prems" show ?thesis
        by (subst leaves_iter_collect.simps) (simp add: iter_flat_def [of it] Some Cons add_left_flat)
    qed
  qed
qed

lemma tree_iter_leaves: "no_empty t \<Longrightarrow> leaves_iter_collect (tree_iter t) = leaves t"
  using collect_flat [of "leaves_iter_new t"]
    add_left_no_empty [of t "\<lparr>current_value = None, right_nodes = []\<rparr>"]
  by (simp add: tree_iter_def leaves_iter_new_def add_left_flat)

lemma decorate_leaves: "decorate H s = Ok t \<Longrightarrow> no_empty t \<and> leaves t = shape_leaves s"
  by (induction s arbitrary: t) (auto simp: new_leaf_def tree_new_def)

lemma pairup_leaves: "concat (map shape_leaves (pairup ss)) = concat (map shape_leaves ss)"
  by (induction ss rule: pairup.induct) auto

lemma build_leaves: "ss \<noteq> [] \<Longrightarrow> shape_leaves (build ss) = concat (map shape_leaves ss)"
proof (induction ss rule: build.induct)
  case (1 ss)
  show ?case
  proof (cases "length ss > 1")
    case True
    with 1 show ?thesis by (simp add: pairup_leaves)
  next
    case False
    with "1.prems" show ?thesis by (cases ss rule: pairup.cases) auto
  qed
qed

lemma from_vec_leaves: "from_vec H xs = Ok mt \<Longrightarrow> leaves_iter_collect (mt_iter mt) = xs"
proof (cases "xs = []")
  case True
  moreover assume "from_vec H xs = Ok mt"
  ultimately have "mt_root mt = Empty (root_hash mt)"
    by (auto simp: from_vec_def root_hash_def tree_empty_def)
  then show ?thesis using True
    by (subst leaves_iter_collect.simps) (simp add: mt_iter_def tree_iter_def leaves_iter_new_def leaves_iter_next_def)
next
  case False
  assume "from_vec H xs = Ok mt"
  with False have d: "decorate H (build (map SLeaf xs)) = Ok (mt_root mt)"
    by (auto simp: from_vec_decorate)
  have "shape_leaves (build (map SLeaf xs)) = xs"
    using build_leaves [of "map SLeaf xs"] False by (simp add: comp_def)
  with decorate_leaves [OF d] show ?thesis by (simp add: mt_iter_def tree_iter_leaves)
qed

section \<open>Appending\<close>

lemma and_pred_even: "0 < w \<Longrightarrow> (2 * w) AND (2 * w - 1) = 2 * (w AND (w - 1 :: nat))"
proof -
  assume "0 < w"
  then have "(2 * w - 1) div 2 = w - 1" "odd (2 * w - 1)" by auto
  then show ?thesis by (subst and_rec) simp
qed

lemma and_pred_odd: "(2 * w + 1) AND (2 * w) = (2 * w :: nat)"
  by (subst and_rec) simp

lemma and_pred_zero: "0 < v \<Longrightarrow> v AND (v - 1) = (0 :: nat) \<longleftrightarrow> (\<exists>j. v = 2 ^ j)"
proof (induction v rule: less_induct)
  case (less v)
  show ?case
  proof (cases "even v")
    case True
    then obtain w where w: "v = 2 * w" by blast
    with less.prems have "0 < w" by simp
    with less.IH [of w] w have IH: "w AND (w - 1) = 0 \<longleftrightarrow> (\<exists>j. w = 2 ^ j)" by simp
    have "(\<exists>j. v = 2 ^ j) \<longleftrightarrow> (\<exists>j. w = 2 ^ j)"
    proof
      assume "\<exists>j. v = 2 ^ j"
      then obtain j where "v = 2 ^ j" ..
      with w True show "\<exists>j. w = 2 ^ j" by (cases j) auto
    next
      assume "\<exists>j. w = 2 ^ j"
      with w show "\<exists>j. v = 2 ^ j" by (metis power_Suc)
    qed
    with IH show ?thesis unfolding w and_pred_even [OF \<open>0 < w\<close>] by simp
  next
    case False
    then obtain w where w: "v = 2 * w + 1" by (blast elim: oddE)
    have "(\<exists>j. v = 2 ^ j) \<longleftrightarrow> w = 0"
    proof
      assume "\<exists>j. v = 2 ^ j"
      then obtain j where "v = 2 ^ j" ..
      with False have "j = 0" by (cases j) auto
      with w \<open>v = 2 ^ j\<close> show "w = 0" by simp
    next
      assume "w = 0"
      with w have "v = 2 ^ 0" by simp
      then show "\<exists>j. v = 2 ^ j" ..
    qed
    with and_pred_odd [of w] show ?thesis unfolding w by simp
  qed
qed

lemma count_bits_loop_ge: "ret \<le> count_bits_loop v ret"
  by (induction v ret rule: count_bits_loop.induct) (metis Suc_eq_plus1 Suc_leD count_bits_loop.simps order_refl)

lemma count_bits_one: "0 < v \<Longrightarrow> count_bits v = 1 \<longleftrightarrow> (\<exists>j. v = 2 ^ j)"
proof -
  assume v: "0 < v"
  have "count_bits v = count_bits_loop (v AND (v - 1)) 1"
    using v by (simp add: count_bits_def count_bits_loop.simps [of v])
  moreover have "count_bits_loop w 1 = 1 \<longleftrightarrow> w = 0" for w
    using count_bits_loop_ge [of 2 "w AND (w - 1)"] by (simp add: count_bits_loop.simps [of w] numeral_2_eq_2)
  ultimately show ?thesis using and_pred_zero [OF v] by simp
qed

lemma decorate_two:
  assumes "2 \<le> length xs"
  shows "decorate H (build (map SLeaf xs)) =
     bind_outcome (decorate H (build (map SLeaf (take (lp2 (length xs)) xs))))
       (\<lambda>l. bind_outcome (decorate H (build (map SLeaf (drop (lp2 (length xs)) xs))))
          (\<lambda>r. bind_outcome (hash_nodes H (tree_hash l) (tree_hash r)) (\<lambda>h. Ok (Node h l r))))"
  using build_split [of "map SLeaf xs"] assms by (simp add: take_map drop_map)

lemma from_vec_record:
  "from_vec H xs = Ok mt \<Longrightarrow> mt = \<lparr>mt_root = mt_root mt, mt_height = levels (length xs),
     mt_count = length xs, mt_nodes_count = length xs - 1\<rparr>"
  using from_vec_Ok(2-4) by simp

lemma from_vec_root_decorate:
  "from_vec H xs = Ok mt \<Longrightarrow> xs \<noteq> [] \<Longrightarrow> decorate H (build (map SLeaf xs)) = Ok (mt_root mt)"
  by (auto simp: from_vec_decorate)

lemma decorate_snoc_leaves: "decorate H (build (map SLeaf xs)) = Ok t \<Longrightarrow> xs \<noteq> [] \<Longrightarrow> no_empty t \<and> leaves t = xs"
  using decorate_leaves [of H "build (map SLeaf xs)" t] build_leaves [of "map SLeaf xs"] by (simp add: comp_def)

lemma append_full:
  assumes "from_vec H xs = Ok mt" "length xs = 2 ^ j"
  shows "append H mt x = from_vec H (xs @ [x])"
proof -
  have ne: "xs \<noteq> []" using assms(2) by auto
  note d = from_vec_root_decorate [OF assms(1) ne]
  obtain root where root: "mt_root mt = root" by simp
  have mt: "mt = \<lparr>mt_root = root, mt_height = levels (length xs), mt_count = length xs, mt_nodes_count = length xs - 1\<rparr>"
    using from_vec_record [OF assms(1)] root by simp
  have bits: "count_bits (length xs) = Suc 0"
    using assms(2) count_bits_one [of "length xs"] ne by auto
  have lp: "lp2 (length (xs @ [x])) = length xs" "levels (Suc (length xs)) = Suc (levels (length xs))"
    using assms(2) lp2_Suc_power [of j] levels_Suc_power [of j] by simp_all
  have d2: "decorate H (build (map SLeaf xs @ [SLeaf x])) =
     bind_outcome (new_leaf H x)
       (\<lambda>r. bind_outcome (hash_nodes H (tree_hash root) (tree_hash r)) (\<lambda>h. Ok (Node h root r)))"
    using decorate_two [of "xs @ [x]" H] lp ne d root by (simp add: Suc_le_eq)
  have fv: "from_vec H [x] = bind_outcome (new_leaf H x)
      (\<lambda>t. Ok \<lparr>mt_root = t, mt_height = 0, mt_count = 1, mt_nodes_count = 0\<rparr>)"
    by (simp add: from_vec_decorate levels.simps)
  have lf: "new_leaf H v = Ok (Leaf h v)" if "root = Leaf h v" for h v
    using decorate_snoc_leaves [OF d ne] d root that by auto
  have "no_empty root" using decorate_snoc_leaves [OF d ne] root by simp
  then show ?thesis
    using ne lf
    by (cases root) (simp_all add: mt append_def bits fv from_vec_decorate d2 root_hash_def lp bind_assoc)
qed

lemma append_partial:
  assumes "from_vec H xs = Ok mt" "2 \<le> length xs" "\<forall>j. length xs \<noteq> 2 ^ j"
  shows "append H mt x = from_vec H (xs @ [x])"
proof -
  let ?k = "lp2 (length xs)"
  have ne: "xs \<noteq> []" using assms(2) by auto
  have k: "?k < length xs" "?k \<noteq> 0" using lp2_bounds [OF assms(2)] lp2_pos [of "length xs"] by auto
  note d = from_vec_root_decorate [OF assms(1) ne]
  obtain h l r where l: "decorate H (build (map SLeaf (take ?k xs))) = Ok l"
    and r: "decorate H (build (map SLeaf (drop ?k xs))) = Ok r" and root: "mt_root mt = Node h l r"
    using d unfolding decorate_two [OF assms(2)] bind_eq_Ok outcome.inject by metis
  have mt: "mt = \<lparr>mt_root = Node h l r, mt_height = levels (length xs), mt_count = length xs,
      mt_nodes_count = length xs - 1\<rparr>"
    using from_vec_record [OF assms(1)] root by simp
  have bits: "count_bits (length xs) \<noteq> Suc 0"
    using assms(3) ne count_bits_one [of "length xs"] by auto
  have lv: "leaves_iter_collect (tree_iter r) = drop ?k xs"
    using decorate_snoc_leaves [OF r] k by (simp add: tree_iter_leaves)
  have lp: "lp2 (Suc (length xs)) = ?k" "levels (Suc (length xs)) = levels (length xs)"
    using lp2_Suc_same levels_Suc_same assms by auto
  have d2: "decorate H (build (map SLeaf xs @ [SLeaf x])) =
     bind_outcome (decorate H (build (map SLeaf (drop ?k xs) @ [SLeaf x])))
       (\<lambda>r. bind_outcome (hash_nodes H (tree_hash l) (tree_hash r)) (\<lambda>h. Ok (Node h l r)))"
    using decorate_two [of "xs @ [x]" H] lp k assms(2) l by simp
  show ?thesis
    using ne k(1) by (simp add: mt append_def bits lv from_vec_decorate bind_assoc d2 lp root_hash_def)
qed

lemma append_from_vec:
  assumes "from_vec H xs = Ok mt"
  shows "append H mt x = from_vec H (xs @ [x])"
proof (cases "xs = []")
  case True
  with assms show ?thesis
    by (auto simp: append_def from_vec_def new_leaf_def hash_leaf_def bind_assoc build_levels.simps)
next
  case False
  consider j where "length xs = 2 ^ j" | "\<forall>j. length xs \<noteq> 2 ^ j" by blast
  then show ?thesis
  proof cases
    case 1
    with assms show ?thesis by (rule append_full)
  next
    case 2
    then have "length xs \<noteq> 2 ^ 0" by blast
    with False have "2 \<le> length xs" by (intro two_le_length) auto
    with assms 2 show ?thesis by (intro append_partial)
  qed
qed

text \<open>The Merkle tree provides the append-only log the pool client relies on.\<close>

interpretation mt_log: append_log "from_vec H" "append H" for H
  by unfold_locales (rule append_from_vec)

section \<open>Properties of the tree operations\<close>

text \<open>A total function with digests of 32 bytes, for concrete runs.\<close>

definition pad_hash :: sha256 where
  "pad_hash x = Some (take 32 (x @ replicate 32 0))"

text \<open>
  C12: Building a tree from transactions gives the Merkle tree hash of RFC 6962 at the root, and fails
  with \<open>InvalidState\<close> exactly when one of the hashes of that definition fails.
\<close>

theorem from_vec_is_rfc6962:
  "bind_outcome (from_vec H xs) (\<lambda>mt. Ok (root_hash mt)) = ok_or (mth H xs) InvalidState"
  by (rule from_vec_root)

text \<open>
  C5: Appending a transaction, which rebuilds only part of the tree, gives exactly the outcome of
  building the tree from the longer list: the same hashes, height and counters, or the same error.
\<close>

theorem append_is_rebuild: "from_vec H xs = Ok mt \<Longrightarrow> append H mt x = from_vec H (xs @ [x])"
  by (rule append_from_vec)

theorem append_is_rebuild_witness:
  "is_ok (from_vec pad_hash [[1], [2], [3]]) \<and>
   append pad_hash (the (ok_val (from_vec pad_hash [[1], [2], [3]]))) [4] = from_vec pad_hash ([[1], [2], [3]] @ [[4]])"
proof -
  have ok: "is_ok (from_vec pad_hash [[1], [2], [3]])" by code_simp
  with append_is_rebuild [OF is_ok_val [OF this], of "[4]"] show ?thesis by blast
qed

text \<open>
  The tree of a list of transactions has the count and the number of inner nodes of that list, and
  draining its leaf iterator yields the transactions in ledger order.
\<close>

theorem tree_holds_transactions:
  "from_vec H xs = Ok mt \<Longrightarrow>
   mt_count mt = length xs \<and> mt_nodes_count mt = length xs - 1 \<and> leaves_iter_collect (mt_iter mt) = xs"
  using from_vec_Ok(2,4) from_vec_leaves by blast

theorem tree_holds_transactions_witness:
  "is_ok (from_vec pad_hash [[1], [2], [3]]) \<and>
   leaves_iter_collect (mt_iter (the (ok_val (from_vec pad_hash [[1], [2], [3]])))) = [[1], [2], [3]]"
proof -
  have ok: "is_ok (from_vec pad_hash [[1], [2], [3]])" by code_simp
  with tree_holds_transactions [OF is_ok_val [OF this]] show ?thesis by blast
qed

end
