(* ===== verification/Merkle_Proof.thy ===== *)
theory Merkle_Proof
  imports Merkle_Spec
begin

text \<open>
  Inclusion proofs (\<open>services/ledger/merkletree/proof.rs\<close> and \<open>MerkleTree::gen_proof\<close>): a chain of
  lemmas from the root to a leaf, its generator and its validator. The lemmas show that a generated
  proof validates against the root and ends in the leaf hash of its value, and that the validator
  follows hashes of the tree unless the hash function collides on the strings that were hashed.
\<close>

section \<open>Proofs\<close>

datatype 'a Positioned = PosLeft 'a | PosRight 'a

datatype Lemma = Lemma (node_hash: bytes) (sibling_hash: "bytes Positioned option") (sub_lemma: "Lemma option")

record Proof =
  proof_root_hash :: bytes
  proof_lemma :: Lemma
  proof_value :: bytes

definition proof_new :: "bytes \<Rightarrow> Lemma \<Rightarrow> bytes \<Rightarrow> Proof" where
  "proof_new root lem v = \<lparr>proof_root_hash = root, proof_lemma = lem, proof_value = v\<rparr>"

fun validate_lemma :: "sha256 \<Rightarrow> Lemma \<Rightarrow> bool IndyResult" where
  "validate_lemma H (Lemma nh sibling None) = Ok (sibling = None)"
| "validate_lemma H (Lemma nh None (Some sub)) = Ok False"
| "validate_lemma H (Lemma nh (Some (PosLeft hash)) (Some sub)) =
     bind_outcome (hash_nodes H hash (node_hash sub))
       (\<lambda>combined. if combined = nh then validate_lemma H sub else Ok False)"
| "validate_lemma H (Lemma nh (Some (PosRight hash)) (Some sub)) =
     bind_outcome (hash_nodes H (node_hash sub) hash)
       (\<lambda>combined. if combined = nh then validate_lemma H sub else Ok False)"

definition validate :: "sha256 \<Rightarrow> Proof \<Rightarrow> bytes \<Rightarrow> bool IndyResult" where
  "validate H p root =
     (if proof_root_hash p \<noteq> root \<or> node_hash (proof_lemma p) \<noteq> root then Ok False
      else validate_lemma H (proof_lemma p))"

definition new_leaf_proof :: "bytes \<Rightarrow> bytes \<Rightarrow> Lemma option" where
  "new_leaf_proof hash needle = (if hash = needle then Some (Lemma hash None None) else None)"

fun lemma_new :: "Tree \<Rightarrow> bytes \<Rightarrow> Lemma option" where
  "lemma_new (Empty _) needle = None"
| "lemma_new (Leaf hash _) needle = new_leaf_proof hash needle"
| "lemma_new (Node hash left right) needle =
     map_option (\<lambda>(sub, sibling). Lemma hash sibling (Some sub))
       (case map_option (\<lambda>lem. (lem, Some (PosRight (tree_hash right)))) (lemma_new left needle) of
          Some x \<Rightarrow> Some x
        | None \<Rightarrow> map_option (\<lambda>lem. (lem, Some (PosLeft (tree_hash left)))) (lemma_new right needle))"

definition gen_proof :: "sha256 \<Rightarrow> MerkleTree \<Rightarrow> bytes \<Rightarrow> Proof option IndyResult" where
  "gen_proof H mt v =
     bind_outcome (hash_leaf H v)
       (\<lambda>leaf_hash. Ok (map_option (\<lambda>lem. proof_new (root_hash mt) lem v) (lemma_new (mt_root mt) leaf_hash)))"

text \<open>The hash at the end of the chain, which the validator leaves unchecked.\<close>

fun innermost :: "Lemma \<Rightarrow> bytes" where
  "innermost (Lemma nh _ None) = nh"
| "innermost (Lemma nh _ (Some sub)) = innermost sub"

section \<open>Generated proofs validate\<close>

fun hashed :: "sha256 \<Rightarrow> Tree \<Rightarrow> bool" where
  "hashed H (Empty h) = (H [] = Some h)"
| "hashed H (Leaf h v) = (H (0 # v) = Some h)"
| "hashed H (Node h l r) = (H (1 # tree_hash l @ tree_hash r) = Some h \<and> hashed H l \<and> hashed H r)"

lemma decorate_hashed: "decorate H s = Ok t \<Longrightarrow> hashed H t"
  by (induction s arbitrary: t) (auto simp: new_leaf_def hash_leaf_def tree_new_def hash_nodes_def)

lemma from_vec_hashed: "from_vec H xs = Ok mt \<Longrightarrow> hashed H (mt_root mt)"
proof (cases "xs = []")
  case True
  assume "from_vec H xs = Ok mt"
  with True show ?thesis by (auto simp: from_vec_def hash_empty_def tree_empty_def)
next
  case False
  assume "from_vec H xs = Ok mt"
  from decorate_hashed [OF from_vec_root_decorate [OF this False]] show ?thesis .
qed

lemma lemma_new_node_hash: "lemma_new t needle = Some lem \<Longrightarrow> node_hash lem = tree_hash t"
  by (cases t) (auto simp: new_leaf_proof_def split: if_splits option.splits)

lemma lemma_new_valid:
  "hashed H t \<Longrightarrow> lemma_new t needle = Some lem \<Longrightarrow> validate_lemma H lem = Ok True \<and> innermost lem = needle"
proof (induction t arbitrary: lem)
  case (Node h l r)
  then show ?case
    by (auto simp: hash_nodes_def lemma_new_node_hash split: option.splits)
qed (auto simp: new_leaf_proof_def split: if_splits)

lemma lemma_new_complete: "hashed H t \<Longrightarrow> v \<in> set (leaves t) \<Longrightarrow> H (0 # v) = Some h \<Longrightarrow> \<exists>lem. lemma_new t h = Some lem"
proof (induction t)
  case (Node h' l r)
  then show ?case by (cases "lemma_new l h"; cases "lemma_new r h") auto
qed (auto simp: new_leaf_proof_def)

lemma hashed_leaf: "hashed H t \<Longrightarrow> v \<in> set (leaves t) \<Longrightarrow> \<exists>h. H (0 # v) = Some h"
  by (induction t) auto

lemma from_vec_leaf_list: "from_vec H xs = Ok mt \<Longrightarrow> leaves (mt_root mt) = xs"
proof (cases "xs = []")
  case True
  assume "from_vec H xs = Ok mt"
  with True show ?thesis by (auto simp: from_vec_def tree_empty_def)
next
  case False
  assume "from_vec H xs = Ok mt"
  from decorate_snoc_leaves [OF from_vec_root_decorate [OF this False] False] show ?thesis by simp
qed

text \<open>
  C25: For every transaction of the tree \<open>gen_proof\<close> yields a proof that validates against the root of
  the tree, carries the transaction and ends in its leaf hash.
\<close>

theorem gen_proof_complete:
  assumes "from_vec H xs = Ok mt" "v \<in> set xs"
  shows "\<exists>p. gen_proof H mt v = Ok (Some p) \<and> validate H p (root_hash mt) = Ok True \<and> proof_value p = v \<and>
    H (0 # v) = Some (innermost (proof_lemma p))"
proof -
  have t: "hashed H (mt_root mt)" "v \<in> set (leaves (mt_root mt))"
    using from_vec_hashed [OF assms(1)] from_vec_leaf_list [OF assms(1)] assms(2) by auto
  then obtain h where h: "H (0 # v) = Some h" using hashed_leaf by blast
  then obtain lem where "lemma_new (mt_root mt) h = Some lem" using lemma_new_complete t by blast
  with h lemma_new_valid [OF t(1) this] lemma_new_node_hash [OF this] show ?thesis
    by (auto simp: gen_proof_def hash_leaf_def validate_def proof_new_def root_hash_def)
qed

theorem gen_proof_complete_witness:
  "[2] \<in> set [[1], [2], [3]] \<and> (\<exists>p. gen_proof pad_hash (the (ok_val (from_vec pad_hash [[1], [2], [3]]))) [2] = Ok (Some p) \<and>
     validate pad_hash p (root_hash (the (ok_val (from_vec pad_hash [[1], [2], [3]])))) = Ok True)"
proof -
  have "is_ok (from_vec pad_hash [[1], [2], [3]])" by code_simp
  from gen_proof_complete [OF is_ok_val [OF this], of "[2]"] show ?thesis by auto
qed

section \<open>Collisions\<close>

text \<open>
  A collision among the strings of \<open>K\<close>. Every statement below takes for \<open>K\<close> the strings that were
  hashed to build the trees and to check the proof.
\<close>

definition collision :: "sha256 \<Rightarrow> bytes set \<Rightarrow> bool" where
  "collision H K = (\<exists>a \<in> K. \<exists>b \<in> K. a \<noteq> b \<and> H a = H b \<and> H a \<noteq> None)"

definition digest_length :: "sha256 \<Rightarrow> bool" where
  "digest_length H = (\<forall>x h. H x = Some h \<longrightarrow> length h = HASHBYTES)"

lemma no_collision: "\<not> collision H K \<Longrightarrow> a \<in> K \<Longrightarrow> b \<in> K \<Longrightarrow> H a = Some h \<Longrightarrow> H b = Some h \<Longrightarrow> a = b"
  unfolding collision_def by (metis option.distinct(1))

lemma collision_mono: "collision H K \<Longrightarrow> K \<subseteq> K' \<Longrightarrow> collision H K'"
  by (auto simp: collision_def)

lemma digest_lengthD: "digest_length H \<Longrightarrow> H x = Some h \<Longrightarrow> length h = HASHBYTES"
  by (auto simp: digest_length_def)

fun tree_inputs :: "Tree \<Rightarrow> bytes set" where
  "tree_inputs (Empty _) = {[]}"
| "tree_inputs (Leaf _ v) = {0 # v}"
| "tree_inputs (Node _ l r) = insert (1 # tree_hash l @ tree_hash r) (tree_inputs l \<union> tree_inputs r)"

fun lemma_inputs :: "Lemma \<Rightarrow> bytes set" where
  "lemma_inputs (Lemma nh _ None) = {}"
| "lemma_inputs (Lemma nh None (Some sub)) = {}"
| "lemma_inputs (Lemma nh (Some (PosLeft hash)) (Some sub)) = insert (1 # hash @ node_hash sub) (lemma_inputs sub)"
| "lemma_inputs (Lemma nh (Some (PosRight hash)) (Some sub)) = insert (1 # node_hash sub @ hash) (lemma_inputs sub)"

lemma hashed_length: "digest_length H \<Longrightarrow> hashed H t \<Longrightarrow> length (tree_hash t) = HASHBYTES"
  by (cases t) (auto dest: digest_lengthD)

lemma hashed_shape:
  "hashed H t \<Longrightarrow> x \<in> K \<Longrightarrow> tree_inputs t \<subseteq> K \<Longrightarrow> \<not> collision H K \<Longrightarrow> H x = Some (tree_hash t) \<Longrightarrow>
   (case t of Empty _ \<Rightarrow> x = [] | Leaf _ v \<Rightarrow> x = 0 # v | Node _ l r \<Rightarrow> x = 1 # tree_hash l @ tree_hash r)"
  by (cases t) (auto dest: no_collision)

lemma lemma_length:
  assumes "digest_length H" "validate_lemma H lem = Ok True" "length (innermost lem) = HASHBYTES"
  shows "length (node_hash lem) = HASHBYTES"
proof (cases "(H, lem)" rule: validate_lemma.cases)
qed (use assms in \<open>auto simp: hash_nodes_def dest: digest_lengthD split: if_splits\<close>)

lemma validate_lemma_sound:
  "validate_lemma H lem = Ok True \<Longrightarrow> digest_length H \<Longrightarrow> \<not> collision H K \<Longrightarrow> hashed H t \<Longrightarrow>
   node_hash lem = tree_hash t \<Longrightarrow> H (0 # v) = Some (innermost lem) \<Longrightarrow>
   insert (0 # v) (tree_inputs t \<union> lemma_inputs lem) \<subseteq> K \<Longrightarrow> v \<in> set (leaves t)"
proof (induction H lem arbitrary: t rule: validate_lemma.induct)
  case (1 H nh sibling)
  then show ?case using hashed_shape [of H t "0 # v" K] by (cases t) auto
next
  case (3 H nh hash sub)
  have h: "H (1 # hash @ node_hash sub) = Some nh" and v: "validate_lemma H sub = Ok True"
    using "3.prems"(1) by (auto simp: hash_nodes_def split: if_splits)
  have "length (node_hash sub) = HASHBYTES"
    using lemma_length [OF "3.prems"(2) v] digest_lengthD [OF "3.prems"(2)] "3.prems"(6) by simp
  then obtain l r where t: "t = Node nh l r" "hash = tree_hash l" "node_hash sub = tree_hash r"
    using hashed_shape [of H t "1 # hash @ node_hash sub" K] h "3.prems" hashed_length [OF "3.prems"(2)]
    by (cases t) auto
  have "v \<in> set (leaves r)"
    using "3.prems" t h v by (intro "3.IH" [of nh r]) (auto simp: hash_nodes_def)
  with t show ?case by simp
next
  case (4 H nh hash sub)
  have h: "H (1 # node_hash sub @ hash) = Some nh" and v: "validate_lemma H sub = Ok True"
    using "4.prems"(1) by (auto simp: hash_nodes_def split: if_splits)
  have "length (node_hash sub) = HASHBYTES"
    using lemma_length [OF "4.prems"(2) v] digest_lengthD [OF "4.prems"(2)] "4.prems"(6) by simp
  then obtain l r where t: "t = Node nh l r" "hash = tree_hash r" "node_hash sub = tree_hash l"
    using hashed_shape [of H t "1 # node_hash sub @ hash" K] h "4.prems" hashed_length [OF "4.prems"(2)]
    by (cases t) auto
  have "v \<in> set (leaves l)"
    using "4.prems" t h v by (intro "4.IH" [of nh l]) (auto simp: hash_nodes_def)
  with t show ?case by simp
qed simp

text \<open>
  C22: A validated inclusion proof is sound: if it validates against the root of the tree of \<open>xs\<close> and its
  innermost hash is the leaf hash of \<open>v\<close>, then \<open>v\<close> is one of \<open>xs\<close>, or two of the strings hashed for the
  tree, the proof and the leaf collide. The hypothesis on the innermost hash is needed: \<open>validate\<close>
  itself does not look at the value.
\<close>

theorem validate_sound:
  assumes "digest_length H" "from_vec H xs = Ok mt" "validate H p (root_hash mt) = Ok True"
    "H (0 # v) = Some (innermost (proof_lemma p))"
  shows "v \<in> set xs \<or> collision H (insert (0 # v) (tree_inputs (mt_root mt) \<union> lemma_inputs (proof_lemma p)))"
proof -
  have "validate_lemma H (proof_lemma p) = Ok True" "node_hash (proof_lemma p) = tree_hash (mt_root mt)"
    using assms(3) by (auto simp: validate_def root_hash_def split: if_splits)
  then show ?thesis
    using validate_lemma_sound [OF _ assms(1) _ from_vec_hashed [OF assms(2)] _ assms(4) order_refl]
      from_vec_leaf_list [OF assms(2)] by auto
qed

lemma pad_hash_length: "digest_length pad_hash"
proof -
  have "length (take 32 (x @ replicate 32 0)) = 32" for x :: bytes
    by (cases "length x \<le> 32") simp_all
  then show ?thesis by (simp add: digest_length_def pad_hash_def HASHBYTES_def del: take_append length_take)
qed

theorem validate_sound_witness:
  "[2] \<in> set [[1], [2 :: byte]] \<or> collision pad_hash (insert (0 # [2])
     (tree_inputs (mt_root (the (ok_val (from_vec pad_hash [[1], [2]])))) \<union>
      lemma_inputs (proof_lemma (the (the (ok_val (gen_proof pad_hash (the (ok_val (from_vec pad_hash [[1], [2]]))) [2])))))))"
proof -
  have ok: "is_ok (from_vec pad_hash [[1], [2]])" by code_simp
  have v: "validate pad_hash (the (the (ok_val (gen_proof pad_hash (the (ok_val (from_vec pad_hash [[1], [2]]))) [2]))))
     (root_hash (the (ok_val (from_vec pad_hash [[1], [2]])))) = Ok True" by code_simp
  have i: "pad_hash (0 # [2]) = Some (innermost (proof_lemma (the (the (ok_val (gen_proof pad_hash
     (the (ok_val (from_vec pad_hash [[1], [2]]))) [2]))))))" by code_simp
  from validate_sound [OF pad_hash_length is_ok_val [OF ok] v i] show ?thesis .
qed

text \<open>
  The validator never looks at the value of a proof: replacing it by any other string leaves the
  verdict unchanged, so a validated proof says nothing of its \<open>value\<close> field by itself.
\<close>

theorem validate_ignores_value: "validate H (p\<lparr>proof_value := v\<rparr>) root = validate H p root"
  by (simp add: validate_def)

end
