(* ===== verification/Merkle_Consistency.thy ===== *)
theory Merkle_Consistency
  imports Merkle_Proof
begin

text \<open>
  Consistency proofs: what \<open>MerkleTree::consistency_proof\<close> accepts. A ledger of \<open>n\<close> transactions has
  a node for each level \<open>l\<close> and index \<open>i\<close> with \<open>i * 2 ^ l < n\<close>, whose hash is the Merkle tree hash of
  the segment \<open>seg ys l i\<close>. The verifier walks such nodes upwards; the lemmas unwind an accepting run
  downwards, so that the old ledger is a prefix of the new one, or two of the hashed strings collide.
\<close>

section \<open>Segments of a ledger\<close>

definition seg :: "'a list \<Rightarrow> nat \<Rightarrow> nat \<Rightarrow> 'a list" where
  "seg xs l i = take (2 ^ l) (drop (i * 2 ^ l) xs)"

lemma length_seg: "length (seg xs l i) = min (2 ^ l) (length xs - i * 2 ^ l)"
  by (simp add: seg_def min.commute)

lemma seg_pair: "seg xs (Suc l) i = seg xs l (2 * i) @ seg xs l (2 * i + 1)"
proof -
  have "(2 * i + 1) * 2 ^ l = 2 ^ l + 2 * i * 2 ^ l" by (simp add: algebra_simps)
  then have "drop ((2 * i + 1) * 2 ^ l) xs = drop (2 ^ l) (drop (2 * i * 2 ^ l) xs)"
    by (simp only: drop_drop)
  moreover have "i * 2 ^ Suc l = 2 * i * 2 ^ l" "(2 :: nat) ^ Suc l = 2 ^ l + 2 ^ l" by simp_all
  ultimately show ?thesis unfolding seg_def by (simp only: take_add)
qed

lemma seg_empty: "length xs \<le> i * 2 ^ l \<Longrightarrow> seg xs l i = []"
  by (simp add: seg_def)

lemma seg_all: "length xs \<le> 2 ^ l \<Longrightarrow> seg xs l 0 = xs"
  by (simp add: seg_def)

lemma seg_prefix:
  assumes "(i + 1) * 2 ^ l \<le> m"
  shows "seg (take m xs) l i = seg xs l i"
proof -
  have "2 ^ l \<le> m - i * 2 ^ l" using assms by simp
  then show ?thesis by (simp add: seg_def drop_take min_absorb1)
qed

lemma take_seg: "take (i * 2 ^ l) xs @ seg xs l i = take ((i + 1) * 2 ^ l) xs"
  using take_add [of "i * 2 ^ l" "2 ^ l" xs] by (simp add: seg_def add.commute)

lemma le_div_iff: "0 < n \<Longrightarrow> i \<le> (n - 1) div 2 ^ l \<longleftrightarrow> i * 2 ^ l < (n :: nat)"
proof -
  assume "0 < n"
  have "i \<le> (n - 1) div 2 ^ l \<longleftrightarrow> i * 2 ^ l \<le> n - 1"
    by (simp add: less_eq_div_iff_mult_less_eq)
  with \<open>0 < n\<close> show ?thesis by linarith
qed

lemma seg_split:
  assumes "(2 * i + 1) * 2 ^ l < length xs"
  shows "2 \<le> length (seg xs (Suc l) i)"
    and "take (lp2 (length (seg xs (Suc l) i))) (seg xs (Suc l) i) = seg xs l (2 * i)"
    and "drop (lp2 (length (seg xs (Suc l) i))) (seg xs (Suc l) i) = seg xs l (2 * i + 1)"
proof -
  have len: "length (seg xs l (2 * i)) = 2 ^ l"
    using assms by (simp add: length_seg)
  have "seg xs l (2 * i + 1) \<noteq> []" using assms by (simp add: seg_def)
  moreover have "length (seg xs l (2 * i + 1)) \<le> 2 ^ l" by (simp add: length_seg)
  ultimately have b: "2 ^ l < length (seg xs (Suc l) i)" "length (seg xs (Suc l) i) \<le> 2 * 2 ^ l"
    using len by (simp_all add: seg_pair)
  then show "2 \<le> length (seg xs (Suc l) i)"
    by (metis Suc_1 Suc_leI le_less_trans one_le_numeral one_le_power)
  from lp2_unique [OF b] len
  show "take (lp2 (length (seg xs (Suc l) i))) (seg xs (Suc l) i) = seg xs l (2 * i)"
    and "drop (lp2 (length (seg xs (Suc l) i))) (seg xs (Suc l) i) = seg xs l (2 * i + 1)"
    by (simp_all add: seg_pair)
qed

lemma mth_seg_pair:
  assumes "(2 * i + 1) * 2 ^ l < length xs"
  shows "mth H (seg xs (Suc l) i) =
     Option.bind (mth H (seg xs l (2 * i))) (\<lambda>x. Option.bind (mth H (seg xs l (2 * i + 1))) (\<lambda>y. H (1 # x @ y)))"
  using mth_split [OF seg_split(1) [OF assms], of H] by (simp only: seg_split [OF assms])

lemma seg_single:
  assumes "length xs \<le> (2 * i + 1) * 2 ^ l"
  shows "seg xs (Suc l) i = seg xs l (2 * i)"
  using seg_empty [OF assms] by (simp add: seg_pair)

section \<open>The strings that are hashed\<close>

function mth_inputs :: "sha256 \<Rightarrow> bytes list \<Rightarrow> bytes set" where
  "mth_inputs H xs =
     (if xs = [] then {[]}
      else if length xs = 1 then {0 # hd xs}
      else mth_inputs H (take (lp2 (length xs)) xs) \<union> mth_inputs H (drop (lp2 (length xs)) xs) \<union>
        (case (mth H (take (lp2 (length xs)) xs), mth H (drop (lp2 (length xs)) xs)) of
           (Some l, Some r) \<Rightarrow> {1 # l @ r}
         | _ \<Rightarrow> {}))"
  by pat_completeness auto
termination
proof (relation "measure (\<lambda>(H, xs). length xs)", goal_cases)
  case (2 H xs)
  then have "2 \<le> length xs" by (intro two_le_length)
  with lp2_bounds [OF this] show ?case by simp
next
  case (3 H xs)
  then show ?case using lp2_pos [of "length xs"] by (cases xs) auto
qed simp

declare mth_inputs.simps [simp del]

lemma mth_inputs_split:
  "2 \<le> length xs \<Longrightarrow> mth H (take (lp2 (length xs)) xs) = Some l \<Longrightarrow> mth H (drop (lp2 (length xs)) xs) = Some r \<Longrightarrow>
   mth_inputs H xs = insert (1 # l @ r)
     (mth_inputs H (take (lp2 (length xs)) xs) \<union> mth_inputs H (drop (lp2 (length xs)) xs))"
  by (subst mth_inputs.simps) auto

lemma short_list: "\<not> 2 \<le> length xs \<Longrightarrow> xs = [] \<or> (\<exists>v. xs = [v])"
  by (cases xs; cases "tl xs") auto

lemma mth_input: "mth H xs = Some h \<Longrightarrow> \<exists>x. H x = Some h \<and> x \<in> mth_inputs H xs \<and>
   (xs = [] \<longrightarrow> x = []) \<and> (\<forall>v. xs = [v] \<longrightarrow> x = 0 # v) \<and>
   (2 \<le> length xs \<longrightarrow> (\<exists>l r. mth H (take (lp2 (length xs)) xs) = Some l \<and>
      mth H (drop (lp2 (length xs)) xs) = Some r \<and> x = 1 # l @ r))"
proof (cases "2 \<le> length xs")
  case True
  assume "mth H xs = Some h"
  then obtain l r where lr: "mth H (take (lp2 (length xs)) xs) = Some l"
    "mth H (drop (lp2 (length xs)) xs) = Some r" "H (1 # l @ r) = Some h"
    by (auto simp: mth_split [OF True] bind_eq_Some_conv)
  with mth_inputs_split [OF True lr(1,2)] True show ?thesis by (intro exI [of _ "1 # l @ r"]) auto
next
  case False
  assume "mth H xs = Some h"
  with short_list [OF False] show ?thesis
    by (auto simp: mth.simps [of H "[]"] mth_inputs.simps [of H "[]"] mth_inputs.simps [of H "[_]"])
qed

lemma mth_length: "digest_length H \<Longrightarrow> mth H xs = Some h \<Longrightarrow> length h = HASHBYTES"
  using mth_input [of H xs h] digest_lengthD by blast

lemma mth_inj:
  "mth H xs = Some h \<Longrightarrow> mth H ys = Some h \<Longrightarrow> digest_length H \<Longrightarrow> \<not> collision H K \<Longrightarrow>
   mth_inputs H xs \<subseteq> K \<Longrightarrow> mth_inputs H ys \<subseteq> K \<Longrightarrow> xs = ys"
proof (induction H xs arbitrary: ys h rule: mth.induct)
  case (1 H xs)
  obtain x where x: "H x = Some h" "x \<in> K" "xs = [] \<longrightarrow> x = []" "\<forall>v. xs = [v] \<longrightarrow> x = 0 # v"
    "2 \<le> length xs \<longrightarrow> (\<exists>l r. mth H (take (lp2 (length xs)) xs) = Some l \<and>
      mth H (drop (lp2 (length xs)) xs) = Some r \<and> x = 1 # l @ r)"
    using mth_input [OF "1.prems"(1)] "1.prems"(5) by blast
  obtain y where y: "H y = Some h" "y \<in> K" "ys = [] \<longrightarrow> y = []" "\<forall>v. ys = [v] \<longrightarrow> y = 0 # v"
    "2 \<le> length ys \<longrightarrow> (\<exists>l r. mth H (take (lp2 (length ys)) ys) = Some l \<and>
      mth H (drop (lp2 (length ys)) ys) = Some r \<and> y = 1 # l @ r)"
    using mth_input [OF "1.prems"(2)] "1.prems"(6) by blast
  have xy: "x = y" using no_collision "1.prems"(4) x y by metis
  show ?case
  proof (cases "2 \<le> length xs")
    case True
    then obtain l r where l: "mth H (take (lp2 (length xs)) xs) = Some l"
      and r: "mth H (drop (lp2 (length xs)) xs) = Some r" and xlr: "x = 1 # l @ r" using x by blast
    have "2 \<le> length ys" using y xlr xy by (cases ys; cases "tl ys") auto
    then obtain l' r' where l': "mth H (take (lp2 (length ys)) ys) = Some l'"
      and r': "mth H (drop (lp2 (length ys)) ys) = Some r'" and ylr: "y = 1 # l' @ r'" using y by blast
    have eq: "l = l'" "r = r'"
      using xlr ylr xy mth_length [OF "1.prems"(3) l] mth_length [OF "1.prems"(3) l'] by auto
    have ne: "xs \<noteq> []" "length xs \<noteq> 1" using True by auto
    note ix = mth_inputs_split [OF True l r] and iy = mth_inputs_split [OF \<open>2 \<le> length ys\<close> l' r']
    have "take (lp2 (length xs)) xs = take (lp2 (length ys)) ys"
      using "1.IH"(1) [OF ne l] l' eq "1.prems"(3-6) ix iy by auto
    moreover have "drop (lp2 (length xs)) xs = drop (lp2 (length ys)) ys"
      using "1.IH"(2) [OF ne l r] r' eq "1.prems"(3-6) ix iy by auto
    ultimately show ?thesis by (metis append_take_drop_id)
  next
    case False
    then show ?thesis using x y xy short_list [OF False] short_list [of ys] by auto
  qed
qed

lemma node_unwind:
  assumes "(2 * i + 1) * 2 ^ l < length xs" "mth H (seg xs (Suc l) i) = Some h" "mth_inputs H (seg xs (Suc l) i) \<subseteq> K"
  obtains x y where "mth H (seg xs l (2 * i)) = Some x" "mth H (seg xs l (2 * i + 1)) = Some y"
    "H (1 # x @ y) = Some h" "1 # x @ y \<in> K"
    "mth_inputs H (seg xs l (2 * i)) \<subseteq> K" "mth_inputs H (seg xs l (2 * i + 1)) \<subseteq> K"
proof -
  from assms(2) obtain x y where xy: "mth H (seg xs l (2 * i)) = Some x" "mth H (seg xs l (2 * i + 1)) = Some y"
    "H (1 # x @ y) = Some h"
    by (auto simp: mth_seg_pair [OF assms(1)] bind_eq_Some_conv)
  have "mth_inputs H (seg xs (Suc l) i) =
      insert (1 # x @ y) (mth_inputs H (seg xs l (2 * i)) \<union> mth_inputs H (seg xs l (2 * i + 1)))"
    using mth_inputs_split [OF seg_split(1) [OF assms(1)], of H x y] xy by (simp only: seg_split [OF assms(1)])
  with assms(3) that [OF xy] show thesis by simp
qed

text \<open>The strings the verifier hashes, along the run of its two loops.\<close>

fun cp_common_inputs :: "sha256 \<Rightarrow> nat \<Rightarrow> nat \<Rightarrow> bytes \<Rightarrow> bytes \<Rightarrow> bytes list \<Rightarrow> bytes set" where
  "cp_common_inputs H a b oh nh proofs =
     (if a = 0 then {}
      else if a mod 2 \<noteq> 0 then
        (case proofs of
           [] \<Rightarrow> {}
         | p # proofs' \<Rightarrow> {1 # p @ oh, 1 # p @ nh} \<union>
             (case (H (1 # p @ oh), H (1 # p @ nh)) of
                (Some oh', Some nh') \<Rightarrow> cp_common_inputs H (a div 2) (b div 2) oh' nh' proofs'
              | _ \<Rightarrow> {}))
      else if a < b then
        (case proofs of
           [] \<Rightarrow> {}
         | p # proofs' \<Rightarrow> {1 # nh @ p} \<union>
             (case H (1 # nh @ p) of
                Some nh' \<Rightarrow> cp_common_inputs H (a div 2) (b div 2) oh nh' proofs'
              | None \<Rightarrow> {}))
      else cp_common_inputs H (a div 2) (b div 2) oh nh proofs)"

declare cp_common_inputs.simps [simp del]

fun cp_rest_inputs :: "sha256 \<Rightarrow> nat \<Rightarrow> bytes \<Rightarrow> bytes list \<Rightarrow> bytes set" where
  "cp_rest_inputs H b nh proofs =
     (if b = 0 then {}
      else (case proofs of
              [] \<Rightarrow> {}
            | p # proofs' \<Rightarrow> {1 # nh @ p} \<union>
                (case H (1 # nh @ p) of Some nh' \<Rightarrow> cp_rest_inputs H (b div 2) nh' proofs' | None \<Rightarrow> {})))"

declare cp_rest_inputs.simps [simp del]

section \<open>Unwinding an accepting run\<close>

lemma half_level: "(n :: nat) div 2 ^ l div 2 = n div 2 ^ Suc l"
  by (simp add: div_mult2_eq [symmetric] mult.commute)

lemma cp_rest_sound:
  "cp_rest H b nh pr = Ok (Some R) \<Longrightarrow> b = (length ys - 1) div 2 ^ l \<Longrightarrow> ys \<noteq> [] \<Longrightarrow> mth H ys = Some R \<Longrightarrow>
   digest_length H \<Longrightarrow> \<not> collision H K \<Longrightarrow> mth_inputs H ys \<union> cp_rest_inputs H b nh pr \<subseteq> K \<Longrightarrow>
   length nh = HASHBYTES \<Longrightarrow> mth H (seg ys l 0) = Some nh \<and> mth_inputs H (seg ys l 0) \<subseteq> K"
proof (induction H b nh pr arbitrary: l rule: cp_rest.induct)
  case (1 H b nh pr)
  show ?case
  proof (cases "b = 0")
    case True
    then have "length ys \<le> 2 ^ l"
      using "1.prems"(2,3) le_div_iff [of "length ys" 1 l] by auto
    with True "1.prems" show ?thesis by (simp add: cp_rest.simps [of H 0] seg_all)
  next
    case False
    with "1.prems"(1) obtain p pr' nh' where pr: "pr = p # pr'" and h: "H (1 # nh @ p) = Some nh'"
      and rest: "cp_rest H (b div 2) nh' pr' = Ok (Some R)"
      by (auto simp: cp_rest.simps [of H b] hash_nodes_def split: list.splits)
    have "cp_rest_inputs H (b div 2) nh' pr' \<subseteq> K"
      using "1.prems"(7) False by (auto simp: cp_rest_inputs.simps [of H b] pr h)
    then have "mth H (seg ys (Suc l) 0) = Some nh' \<and> mth_inputs H (seg ys (Suc l) 0) \<subseteq> K"
      using "1.prems"(2-7) h rest digest_lengthD [OF "1.prems"(5) h]
      by (intro "1.IH" [OF False pr]) (auto simp: hash_nodes_def half_level)
    moreover have "(2 * 0 + 1) * 2 ^ l < length ys"
      using False "1.prems"(2,3) le_div_iff [of "length ys" 1 l] by auto
    ultimately obtain x y where xy: "mth H (seg ys l 0) = Some x" "H (1 # x @ y) = Some nh'" "1 # x @ y \<in> K"
      "mth_inputs H (seg ys l 0) \<subseteq> K"
      using node_unwind [of 0 l ys H nh' K] by (metis mult_0_right)
    have "1 # nh @ p \<in> K"
      using "1.prems"(7) False pr by (auto simp: cp_rest_inputs.simps [of H b])
    then have "nh @ p = x @ y" using no_collision [OF "1.prems"(6) _ xy(3) h xy(2)] by simp
    with "1.prems"(8) mth_length [OF "1.prems"(5) xy(1)] xy show ?thesis by simp
  qed
qed

text \<open>
  What a run knows of the node it stands at: the old and the new hash are those of the segments of
  the old and the new ledger, or they are equal and so are the segments.
\<close>

definition linked :: "sha256 \<Rightarrow> bytes set \<Rightarrow> bytes list \<Rightarrow> bytes list \<Rightarrow> nat \<Rightarrow> nat \<Rightarrow> bytes \<Rightarrow> bytes \<Rightarrow> bool" where
  "linked H K xs ys l a oh nh =
     (mth_inputs H (seg xs l a) \<subseteq> K \<and> mth_inputs H (seg ys l a) \<subseteq> K \<and>
      (mth H (seg xs l a) \<noteq> None \<and> mth H (seg ys l a) \<noteq> None) \<and>
      (mth H (seg xs l a) = Some oh \<and> mth H (seg ys l a) = Some nh \<or> oh = nh \<and> seg xs l a = seg ys l a))"

lemma unwind_left:
  assumes K: "digest_length H" "\<not> collision H K"
    and up: "linked H K xs ys (Suc l) i oh' nh'"
    and len: "(2 * i + 1) * 2 ^ l < length xs" "length xs \<le> length ys"
    and h: "H (1 # p @ oh) = Some oh'" "H (1 # p @ nh) = Some nh'" "1 # p @ oh \<in> K" "1 # p @ nh \<in> K"
    and eq: "oh = nh \<or> length nh = HASHBYTES"
  shows "linked H K xs ys l (2 * i + 1) oh nh \<and> seg xs l (2 * i) = seg ys l (2 * i)"
proof -
  have leny: "(2 * i + 1) * 2 ^ l < length ys" using len by linarith
  from up obtain hx hy where hx: "mth H (seg xs (Suc l) i) = Some hx" and hy: "mth H (seg ys (Suc l) i) = Some hy"
    by (auto simp: linked_def)
  obtain x0 x1 where x: "mth H (seg xs l (2 * i)) = Some x0" "mth H (seg xs l (2 * i + 1)) = Some x1"
    "H (1 # x0 @ x1) = Some hx" "1 # x0 @ x1 \<in> K"
    "mth_inputs H (seg xs l (2 * i)) \<subseteq> K" "mth_inputs H (seg xs l (2 * i + 1)) \<subseteq> K"
    using node_unwind [OF len(1) hx, of K] up by (auto simp: linked_def)
  obtain y0 y1 where y: "mth H (seg ys l (2 * i)) = Some y0" "mth H (seg ys l (2 * i + 1)) = Some y1"
    "H (1 # y0 @ y1) = Some hy" "1 # y0 @ y1 \<in> K"
    "mth_inputs H (seg ys l (2 * i)) \<subseteq> K" "mth_inputs H (seg ys l (2 * i + 1)) \<subseteq> K"
    using node_unwind [OF leny hy, of K] up by (auto simp: linked_def)
  note lens = mth_length [OF K(1) x(1)] mth_length [OF K(1) x(2)] mth_length [OF K(1) y(1)] mth_length [OF K(1) y(2)]
  note inj0 = mth_inj [OF x(1) _ K x(5) y(5)] and inj1 = mth_inj [OF x(2) _ K x(6) y(6)]
  show ?thesis
  proof (cases "hx = oh' \<and> hy = nh'")
    case True
    then have px: "p @ oh = x0 @ x1" and py: "p @ nh = y0 @ y1"
      using no_collision [OF K(2) h(3) x(4) h(1)] no_collision [OF K(2) h(4) y(4) h(2)] x(3) y(3) by simp_all
    show ?thesis
    proof (cases "oh = nh")
      case True
      with px py lens have "x0 = y0" "x1 = y1" by simp_all
      with True x y inj0 inj1 show ?thesis by (simp add: linked_def)
    next
      case False
      with eq py lens have "length p = length y0" by (metis append_eq_append_conv)
      with px py lens have "p = x0" "oh = x1" "p = y0" "nh = y1" by simp_all
      with x y inj0 show ?thesis by (simp add: linked_def)
    qed
  next
    case False
    with up hx hy have e: "oh' = nh'" "seg xs (Suc l) i = seg ys (Suc l) i" by (auto simp: linked_def)
    then have "oh = nh" using no_collision [OF K(2) h(3,4) h(1)] h(2) by simp
    moreover have "length (seg xs l (2 * i)) = length (seg ys l (2 * i))"
      using len leny by (simp add: length_seg)
    with e(2) have "seg xs l (2 * i) = seg ys l (2 * i)" "seg xs l (2 * i + 1) = seg ys l (2 * i + 1)"
      by (simp_all add: seg_pair)
    ultimately show ?thesis using x y by (simp add: linked_def)
  qed
qed

lemma unwind_right:
  assumes K: "digest_length H" "\<not> collision H K"
    and up: "linked H K xs ys (Suc l) i oh nh'"
    and len: "length xs \<le> (2 * i + 1) * 2 ^ l" "(2 * i + 1) * 2 ^ l < length ys"
    and h: "H (1 # nh @ p) = Some nh'" "1 # nh @ p \<in> K"
    and eq: "oh = nh \<or> length nh = HASHBYTES"
  shows "linked H K xs ys l (2 * i) oh nh"
proof -
  have sx: "seg xs (Suc l) i = seg xs l (2 * i)" by (rule seg_single [OF len(1)])
  have "length (seg xs l (2 * i)) \<le> 2 ^ l" by (simp add: length_seg)
  moreover have "2 ^ l < length (seg ys (Suc l) i)"
    using len(2) by (simp add: seg_pair length_seg)
  ultimately have ne: "seg xs (Suc l) i \<noteq> seg ys (Suc l) i" using sx by auto
  with up have hx: "mth H (seg xs l (2 * i)) = Some oh" and hy: "mth H (seg ys (Suc l) i) = Some nh'"
    by (auto simp: linked_def sx)
  have "mth_inputs H (seg ys (Suc l) i) \<subseteq> K" using up by (simp add: linked_def)
  from node_unwind [OF len(2) hy this]
  obtain y0 y1 where y: "mth H (seg ys l (2 * i)) = Some y0" "H (1 # y0 @ y1) = Some nh'" "1 # y0 @ y1 \<in> K"
    "mth_inputs H (seg ys l (2 * i)) \<subseteq> K" by metis
  have "nh @ p = y0 @ y1" using no_collision [OF K(2) h(2) y(3) h(1)] y(2) by simp
  moreover have "length nh = length y0"
    using eq mth_length [OF K(1) hx] mth_length [OF K(1) y(1)] by auto
  ultimately have "nh = y0" by simp
  with hx y up sx show ?thesis by (simp add: linked_def)
qed

lemma cp_common_sound:
  "cp_common H a b oh nh pr = Ok (Some (b', oh', nh', pr')) \<Longrightarrow> cp_rest H b' nh' pr' = Ok (Some R) \<Longrightarrow>
   a = (length xs - 1) div 2 ^ l \<Longrightarrow> b = (length ys - 1) div 2 ^ l \<Longrightarrow> xs \<noteq> [] \<Longrightarrow> length xs \<le> length ys \<Longrightarrow>
   mth H xs = Some oh' \<Longrightarrow> mth H ys = Some R \<Longrightarrow> digest_length H \<Longrightarrow> \<not> collision H K \<Longrightarrow>
   mth_inputs H xs \<union> mth_inputs H ys \<union> cp_common_inputs H a b oh nh pr \<union> cp_rest_inputs H b' nh' pr' \<subseteq> K \<Longrightarrow>
   oh = nh \<or> length nh = HASHBYTES \<Longrightarrow>
   take (a * 2 ^ l) xs = take (a * 2 ^ l) ys \<and> linked H K xs ys l a oh nh"
proof (induction H a b oh nh pr arbitrary: l rule: cp_common.induct)
  case (1 H a b oh nh pr)
  have ne: "0 < length xs" "0 < length ys" using "1.prems"(5,6) by auto
  have lens: "a * 2 ^ l < length xs" "length xs \<le> (a + 1) * 2 ^ l" "b * 2 ^ l < length ys"
    using le_div_iff [OF ne(1), of a l] le_div_iff [OF ne(1), of "a + 1" l] le_div_iff [OF ne(2), of b l]
      "1.prems"(3,4) by auto
  have half: "a div 2 = (length xs - 1) div 2 ^ Suc l" "b div 2 = (length ys - 1) div 2 ^ Suc l"
    using "1.prems"(3,4) half_level by simp_all
  note defs = cp_common.simps [of H a] cp_common_inputs.simps [of H a] hash_nodes_def
  consider (zero) "a = 0" | (odd) i where "a = 2 * i + 1" | (right) i where "a = 2 * i" "a \<noteq> 0" "a < b"
    | (skip) i where "a = 2 * i" "a \<noteq> 0" "\<not> a < b"
    by (metis evenE oddE)
  then show ?case
  proof cases
    case zero
    then have r: "b' = b" "oh' = oh" "nh' = nh" "pr' = pr" using "1.prems"(1) by (auto simp: cp_common.simps [of H 0])
    have "length nh = HASHBYTES"
      using "1.prems"(12) mth_length [OF "1.prems"(9,7)] r by auto
    then have "mth H (seg ys l 0) = Some nh \<and> mth_inputs H (seg ys l 0) \<subseteq> K"
      using "1.prems" r ne by (intro cp_rest_sound [of H b nh pr R]) auto
    with zero lens "1.prems"(7,11) r show ?thesis by (simp add: linked_def seg_all)
  next
    case (odd i)
    then have a: "a mod 2 \<noteq> 0" "a \<noteq> 0" by auto
    then obtain p pr1 oh1 nh1 where pr: "pr = p # pr1" and h: "H (1 # p @ oh) = Some oh1" "H (1 # p @ nh) = Some nh1"
      and rec: "cp_common H (a div 2) (b div 2) oh1 nh1 pr1 = Ok (Some (b', oh', nh', pr'))"
      using "1.prems"(1) by (auto simp: defs split: list.splits)
    have K: "1 # p @ oh \<in> K" "1 # p @ nh \<in> K" "cp_common_inputs H (a div 2) (b div 2) oh1 nh1 pr1 \<subseteq> K"
      using "1.prems"(11) a by (auto simp: defs pr h)
    have IH: "take (a div 2 * 2 ^ Suc l) xs = take (a div 2 * 2 ^ Suc l) ys \<and> linked H K xs ys (Suc l) (a div 2) oh1 nh1"
      by (rule "1.IH"(1) [OF _ _ pr _ _ rec "1.prems"(2) half "1.prems"(5-10)])
        (use a h K "1.prems"(11,12) digest_lengthD [OF "1.prems"(9) h(2)] in \<open>auto simp: hash_nodes_def\<close>)
    with odd have IH': "take (2 * i * 2 ^ l) xs = take (2 * i * 2 ^ l) ys" "linked H K xs ys (Suc l) i oh1 nh1"
      by (simp_all add: mult.assoc mult.left_commute)
    have "linked H K xs ys l (2 * i + 1) oh nh \<and> seg xs l (2 * i) = seg ys l (2 * i)"
      using lens(1) odd by (intro unwind_left [OF "1.prems"(9,10) IH'(2) _ "1.prems"(6) h K(1,2) "1.prems"(12)]) simp
    with IH'(1) odd show ?thesis using take_seg [of "2 * i" l xs] take_seg [of "2 * i" l ys] by simp
  next
    case (right i)
    then have a: "\<not> a mod 2 \<noteq> 0" "a \<noteq> 0" "a < b" by auto
    then obtain p pr1 nh1 where pr: "pr = p # pr1" and h: "H (1 # nh @ p) = Some nh1"
      and rec: "cp_common H (a div 2) (b div 2) oh nh1 pr1 = Ok (Some (b', oh', nh', pr'))"
      using "1.prems"(1) by (auto simp: defs split: list.splits)
    have K: "1 # nh @ p \<in> K" "cp_common_inputs H (a div 2) (b div 2) oh nh1 pr1 \<subseteq> K"
      using "1.prems"(11) a by (auto simp: defs pr h)
    have IH: "take (a div 2 * 2 ^ Suc l) xs = take (a div 2 * 2 ^ Suc l) ys \<and> linked H K xs ys (Suc l) (a div 2) oh nh1"
      by (rule "1.IH"(2) [OF _ _ _ pr _ rec "1.prems"(2) half "1.prems"(5-10)])
        (use a h K "1.prems"(11) digest_lengthD [OF "1.prems"(9) h] in \<open>auto simp: hash_nodes_def\<close>)
    have "(2 * i + 1) * 2 ^ l \<le> b * 2 ^ l" using right by (intro mult_right_mono) auto
    with lens right have "linked H K xs ys l (2 * i) oh nh"
      using IH by (intro unwind_right [OF "1.prems"(9,10) _ _ _ h K(1) "1.prems"(12)]) auto
    with IH right show ?thesis by (simp add: mult.assoc mult.left_commute)
  next
    case (skip i)
    then have a: "\<not> a mod 2 \<noteq> 0" "a \<noteq> 0" "\<not> a < b" by auto
    then have rec: "cp_common H (a div 2) (b div 2) oh nh pr = Ok (Some (b', oh', nh', pr'))"
      using "1.prems"(1) by (simp add: defs)
    have IH: "take (a div 2 * 2 ^ Suc l) xs = take (a div 2 * 2 ^ Suc l) ys \<and> linked H K xs ys (Suc l) (a div 2) oh nh"
      by (rule "1.IH"(3) [OF _ _ _ rec "1.prems"(2) half "1.prems"(5-10)])
        (use a "1.prems"(11,12) in \<open>simp_all add: defs\<close>)
    have "length ys \<le> (b + 1) * 2 ^ l" using le_div_iff [OF ne(2), of "b + 1" l] "1.prems"(4) by auto
    moreover have "(b + 1) * 2 ^ l \<le> (a + 1) * 2 ^ l" using skip by (intro mult_right_mono) auto
    ultimately have "length ys \<le> (a + 1) * 2 ^ l" by (rule order_trans)
    then have "length ys \<le> (2 * i + 1) * 2 ^ l" by (simp only: skip(1))
    then have "seg xs (Suc l) i = seg xs l (2 * i)" "seg ys (Suc l) i = seg ys l (2 * i)"
      using lens(2) skip by (auto intro: seg_single)
    with IH skip show ?thesis by (simp add: linked_def mult.assoc mult.left_commute)
  qed
qed

fun trailing_ones :: "nat \<Rightarrow> nat" where
  "trailing_ones a = (if a mod 2 \<noteq> 0 then Suc (trailing_ones (a div 2)) else 0)"

declare trailing_ones.simps [simp del]

lemma strip_odd_trailing: "strip_odd a b = (a div 2 ^ trailing_ones a, b div 2 ^ trailing_ones a)"
proof (induction a b rule: strip_odd.induct)
  case (1 a b)
  then show ?case
    by (cases "a mod 2 \<noteq> 0") (simp_all add: strip_odd.simps [of a] trailing_ones.simps [of a] div_mult2_eq)
qed

lemma trailing_ones_full: "(a div 2 ^ trailing_ones a + 1) * 2 ^ trailing_ones a = a + 1"
proof (induction a rule: trailing_ones.induct)
  case (1 a)
  show ?case
  proof (cases "a mod 2 \<noteq> 0")
    case True
    then have "2 * (a div 2 + 1) = a + 1" by presburger
    with True "1.IH" show ?thesis
      by (simp add: trailing_ones.simps [of a] div_mult2_eq mult.left_commute [of _ 2] del: mult_Suc)
  qed (simp add: trailing_ones.simps [of a])
qed

lemma strip_odd_level:
  "strip_odd a b = (a', b') \<Longrightarrow> \<exists>l. a' = a div 2 ^ l \<and> b' = b div 2 ^ l \<and> (a' + 1) * 2 ^ l = a + 1"
  using strip_odd_trailing [of a b] trailing_ones_full [of a] by auto

section \<open>Soundness\<close>

text \<open>The strings hashed by one run of \<open>consistency_proof\<close> on the root hash \<open>rh\<close> of the old tree.\<close>

definition consistency_inputs :: "sha256 \<Rightarrow> nat \<Rightarrow> bytes \<Rightarrow> nat \<Rightarrow> bytes list \<Rightarrow> bytes set" where
  "consistency_inputs H m rh n prfs =
     (let (a, b) = strip_odd (m - 1) (n - 1);
          (s, proofs) = (if a \<noteq> 0 then (hd prfs, tl prfs) else (rh, prfs))
      in cp_common_inputs H a b s s proofs \<union>
         (case cp_common H a b s s proofs of
            Ok (Some (b', oh', nh', proofs')) \<Rightarrow> cp_rest_inputs H b' nh' proofs'
          | _ \<Rightarrow> {}))"

lemma consistency_proof_run:
  assumes "consistency_proof H mt R n prfs = Ok True" "mt_count mt \<noteq> 0" "\<not> (mt_count mt = n \<and> root_hash mt = R)"
  obtains a b s proofs b' nh' proofs' where "mt_count mt \<le> n" "strip_odd (mt_count mt - 1) (n - 1) = (a, b)"
    "(s, proofs) = (if a \<noteq> 0 then (hd prfs, tl prfs) else (root_hash mt, prfs))"
    "cp_common H a b s s proofs = Ok (Some (b', root_hash mt, nh', proofs'))" "cp_rest H b' nh' proofs' = Ok (Some R)"
  using assms
  by (auto simp: consistency_proof_def split: prod.splits if_splits list.splits option.splits) (metis list.sel)+

lemma consistency_prefix:
  assumes H: "digest_length H" and mt: "from_vec H xs = Ok mt" and R: "mth H ys = Some R"
    and acc: "consistency_proof H mt R (length ys) prfs = Ok True"
  shows "xs = take (length xs) ys \<or>
     collision H (mth_inputs H xs \<union> mth_inputs H ys \<union> consistency_inputs H (length xs) (root_hash mt) (length ys) prfs)"
    (is "_ \<or> collision H ?K")
proof (rule disjCI)
  assume K: "\<not> collision H ?K"
  have rh: "mth H xs = Some (root_hash mt)" and m: "mt_count mt = length xs"
    using from_vec_Ok [OF mt] by simp_all
  show "xs = take (length xs) ys"
  proof (cases "xs = [] \<or> (length xs = length ys \<and> root_hash mt = R)")
    case True
    then have "xs \<noteq> [] \<longrightarrow> xs = ys" using R by (intro impI mth_inj [OF rh _ H K]) auto
    then show ?thesis by (cases "xs = []") auto
  next
    case False
    with acc m obtain a b s proofs b' nh' proofs' where run: "length xs \<le> length ys"
      "strip_odd (length xs - 1) (length ys - 1) = (a, b)"
      "(s, proofs) = (if a \<noteq> 0 then (hd prfs, tl prfs) else (root_hash mt, prfs))"
      "cp_common H a b s s proofs = Ok (Some (b', root_hash mt, nh', proofs'))" "cp_rest H b' nh' proofs' = Ok (Some R)"
      by (auto elim!: consistency_proof_run)
    obtain l where l: "a = (length xs - 1) div 2 ^ l" "b = (length ys - 1) div 2 ^ l" "(a + 1) * 2 ^ l = length xs"
      using strip_odd_level [OF run(2)] False by auto
    have "cp_common_inputs H a b s s proofs \<union> cp_rest_inputs H b' nh' proofs' \<subseteq> ?K"
      using run(2,3,4) by (auto simp: consistency_inputs_def split: if_splits prod.splits)
    with False have main: "take (a * 2 ^ l) xs = take (a * 2 ^ l) ys" "linked H ?K xs ys l a s s"
      using cp_common_sound [OF run(4,5) l(1,2) _ run(1) rh R H K] by auto
    then have "seg xs l a = seg ys l a"
      using mth_inj [OF _ _ H K, of "seg xs l a" s "seg ys l a"] by (auto simp: linked_def)
    with main(1) have "take ((a + 1) * 2 ^ l) xs = take ((a + 1) * 2 ^ l) ys"
      using take_seg [of a l xs] take_seg [of a l ys] by metis
    then show ?thesis unfolding l(3) by simp
  qed
qed

text \<open>
  C1: Consistency proofs are sound: when the tree of the local transactions \<open>xs\<close> accepts a proof for the
  root hash of a ledger \<open>ys\<close>, then \<open>xs\<close> is a prefix of \<open>ys\<close>, or two of the strings hashed for the two
  trees and by the verifier collide. The proof is any list of byte strings, of any lengths.
\<close>

theorem consistency_sound:
  assumes H: "digest_length H" and mt: "from_vec H xs = Ok mt" and R: "mth H ys = Some R"
    and acc: "consistency_proof H mt R (length ys) prfs = Ok True"
  shows "xs = take (length xs) ys \<or>
     collision H (mth_inputs H xs \<union> mth_inputs H ys \<union> consistency_inputs H (length xs) (root_hash mt) (length ys) prfs)"
  using consistency_prefix [OF H mt R acc] .

theorem consistency_sound_witness:
  "[[1], [2], [3]] = take (length [[1], [2], [3 :: byte]]) [[1], [2], [3], [4], [5 :: byte]] \<or>
   collision pad_hash (mth_inputs pad_hash [[1], [2], [3]] \<union> mth_inputs pad_hash [[1], [2], [3], [4], [5]] \<union>
     consistency_inputs pad_hash (length [[1], [2], [3 :: byte]]) (root_hash (the (ok_val (from_vec pad_hash [[1], [2], [3]]))))
       (length [[1], [2], [3], [4], [5 :: byte]]) (map (the \<circ> mth pad_hash) [[[3]], [[4]], [[1], [2]], [[5]]]))"
proof -
  have ok: "is_ok (from_vec pad_hash [[1], [2], [3]])" by code_simp
  have R: "mth pad_hash [[1], [2], [3], [4], [5]] = Some (the (mth pad_hash [[1], [2], [3], [4], [5]]))" by code_simp
  have acc: "consistency_proof pad_hash (the (ok_val (from_vec pad_hash [[1], [2], [3]])))
     (the (mth pad_hash [[1], [2], [3], [4], [5]])) (length [[1], [2], [3], [4], [5 :: byte]]) (map (the \<circ> mth pad_hash) [[[3]], [[4]], [[1], [2]], [[5]]]) = Ok True" by code_simp
  from consistency_sound [OF pad_hash_length is_ok_val [OF ok] R acc] show ?thesis .
qed

section \<open>Completeness\<close>

text \<open>
  The proof a ledger of the transactions \<open>ys\<close> gives for its prefix of length \<open>m\<close>: for each node the
  verifier visits, the hash of the sibling it asks for. \<open>hs\<close> is the hash of a list when hashing
  succeeds.
\<close>

definition hs :: "sha256 \<Rightarrow> bytes list \<Rightarrow> bytes" where
  "hs H xs = the (mth H xs)"

fun rest_siblings :: "sha256 \<Rightarrow> bytes list \<Rightarrow> nat \<Rightarrow> nat \<Rightarrow> bytes list" where
  "rest_siblings H ys l b = (if b = 0 then [] else hs H (seg ys l 1) # rest_siblings H ys (Suc l) (b div 2))"

fun siblings :: "sha256 \<Rightarrow> bytes list \<Rightarrow> nat \<Rightarrow> nat \<Rightarrow> nat \<Rightarrow> bytes list" where
  "siblings H ys l a b =
     (if a = 0 then rest_siblings H ys l b
      else if a mod 2 \<noteq> 0 then hs H (seg ys l (a - 1)) # siblings H ys (Suc l) (a div 2) (b div 2)
      else if a < b then hs H (seg ys l (a + 1)) # siblings H ys (Suc l) (a div 2) (b div 2)
      else siblings H ys (Suc l) (a div 2) (b div 2))"

declare rest_siblings.simps [simp del] siblings.simps [simp del]

definition honest_proof :: "sha256 \<Rightarrow> bytes list \<Rightarrow> nat \<Rightarrow> bytes list" where
  "honest_proof H ys m =
     (let l = trailing_ones (m - 1); a = (m - 1) div 2 ^ l; b = (length ys - 1) div 2 ^ l
      in (if a \<noteq> 0 then [hs H (seg ys l a)] else []) @ siblings H ys l a b)"

definition total_hash :: "sha256 \<Rightarrow> bool" where
  "total_hash H = (\<forall>x. H x \<noteq> None)"

lemma mth_total: "total_hash H \<Longrightarrow> mth H xs = Some (hs H xs)"
proof -
  assume t: "total_hash H"
  have "mth H xs \<noteq> None"
    using t
  proof (induction H xs rule: mth.induct)
    case (1 H xs)
    then show ?case
      by (subst mth.simps) (auto simp: total_hash_def bind_eq_None_conv)
  qed
  then show ?thesis by (auto simp: hs_def)
qed

lemma hash_nodes_seg:
  "total_hash H \<Longrightarrow> (2 * i + 1) * 2 ^ l < length xs \<Longrightarrow>
   hash_nodes H (hs H (seg xs l (2 * i))) (hs H (seg xs l (2 * i + 1))) = Ok (hs H (seg xs (Suc l) i))"
  using mth_seg_pair [of i l xs H] by (simp add: mth_total hash_nodes_def)

lemma cp_rest_complete:
  "total_hash H \<Longrightarrow> ys \<noteq> [] \<Longrightarrow> b = (length ys - 1) div 2 ^ l \<Longrightarrow>
   cp_rest H b (hs H (seg ys l 0)) (rest_siblings H ys l b) = Ok (Some (hs H ys))"
proof (induction H ys l b rule: rest_siblings.induct)
  case (1 H ys l b)
  show ?case
  proof (cases "b = 0")
    case True
    then have "length ys \<le> 2 ^ l" using 1 le_div_iff [of "length ys" 1 l] by auto
    then show ?thesis by (simp add: True cp_rest.simps rest_siblings.simps seg_all)
  next
    case False
    then have "(2 * 0 + 1) * 2 ^ l < length ys" using 1 le_div_iff [of "length ys" 1 l] by auto
    note h = hash_nodes_seg [OF "1.prems"(1) this]
    have "cp_rest H (b div 2) (hs H (seg ys (Suc l) 0)) (rest_siblings H ys (Suc l) (b div 2)) = Ok (Some (hs H ys))"
      using "1.prems" by (intro "1.IH" [OF False]) (simp_all add: half_level)
    with h False show ?thesis by (simp add: cp_rest.simps [of H b] rest_siblings.simps [of H ys l b])
  qed
qed

definition cp_run :: "sha256 \<Rightarrow> nat \<Rightarrow> nat \<Rightarrow> bytes \<Rightarrow> bytes \<Rightarrow> bytes list \<Rightarrow> (bytes \<times> bytes) option IndyResult" where
  "cp_run H a b oh nh proofs =
     bind_outcome (cp_common H a b oh nh proofs)
       (\<lambda>r. case r of None \<Rightarrow> Ok None
          | Some (b', oh', nh', proofs') \<Rightarrow> bind_outcome (cp_rest H b' nh' proofs') (\<lambda>r'. Ok (map_option (Pair oh') r')))"

lemma cp_run_odd:
  "a mod 2 \<noteq> 0 \<Longrightarrow> hash_nodes H p oh = Ok oh' \<Longrightarrow> hash_nodes H p nh = Ok nh' \<Longrightarrow>
   cp_run H a b oh nh (p # pr) = cp_run H (a div 2) (b div 2) oh' nh' pr"
  by (cases "a = 0") (simp_all add: cp_run_def cp_common.simps [of H a])

lemma cp_run_right:
  "a mod 2 = 0 \<Longrightarrow> a \<noteq> 0 \<Longrightarrow> a < b \<Longrightarrow> hash_nodes H nh p = Ok nh' \<Longrightarrow>
   cp_run H a b oh nh (p # pr) = cp_run H (a div 2) (b div 2) oh nh' pr"
  by (simp add: cp_run_def cp_common.simps [of H a])

lemma cp_run_skip:
  "a mod 2 = 0 \<Longrightarrow> a \<noteq> 0 \<Longrightarrow> \<not> a < b \<Longrightarrow> cp_run H a b oh nh pr = cp_run H (a div 2) (b div 2) oh nh pr"
  by (simp add: cp_run_def cp_common.simps [of H a])

lemma cp_run_complete:
  "total_hash H \<Longrightarrow> xs = take m ys \<Longrightarrow> 0 < m \<Longrightarrow> m \<le> length ys \<Longrightarrow> a = (m - 1) div 2 ^ l \<Longrightarrow>
   b = (length ys - 1) div 2 ^ l \<Longrightarrow>
   cp_run H a b (hs H (seg xs l a)) (hs H (seg ys l a)) (siblings H ys l a b) = Ok (Some (hs H xs, hs H ys))"
proof (induction H ys l a b rule: siblings.induct)
  case (1 H ys l a b)
  have len: "length xs = m" "0 < length xs" "0 < length ys" using "1.prems" by auto
  have lens: "a * 2 ^ l < m" "m \<le> (a + 1) * 2 ^ l" "b * 2 ^ l < length ys"
    using le_div_iff [of m a l] le_div_iff [of m "a + 1" l] le_div_iff [OF len(3), of b l] "1.prems" by auto
  have half: "a div 2 = (m - 1) div 2 ^ Suc l" "b div 2 = (length ys - 1) div 2 ^ Suc l"
    using "1.prems"(5,6) half_level by simp_all
  consider (zero) "a = 0" | (odd) i where "a = 2 * i + 1" | (right) i where "a = 2 * i" "a \<noteq> 0" "a < b"
    | (skip) i where "a = 2 * i" "a \<noteq> 0" "\<not> a < b"
    by (metis evenE oddE)
  then show ?case
  proof cases
    case zero
    have "cp_rest H b (hs H (seg ys l 0)) (rest_siblings H ys l b) = Ok (Some (hs H ys))"
      using "1.prems" len by (intro cp_rest_complete) auto
    with zero lens len show ?thesis
      by (simp add: cp_run_def cp_common.simps [of H 0] siblings.simps [of H ys l 0] seg_all)
  next
    case (odd i)
    have a: "a mod 2 \<noteq> 0" "a \<noteq> 0" "a div 2 = i" "a - 1 = 2 * i" using odd by auto
    have x: "(2 * i + 1) * 2 ^ l < length xs" "(2 * i + 1) * 2 ^ l < length ys"
      using lens(1) odd len "1.prems"(4) by auto
    have "seg xs l (2 * i) = seg ys l (2 * i)"
      using x(1) len(1) by (simp add: "1.prems"(2) seg_prefix)
    then have h: "hash_nodes H (hs H (seg ys l (a - 1))) (hs H (seg xs l a)) = Ok (hs H (seg xs (Suc l) (a div 2)))"
        "hash_nodes H (hs H (seg ys l (a - 1))) (hs H (seg ys l a)) = Ok (hs H (seg ys (Suc l) (a div 2)))"
      using hash_nodes_seg [OF "1.prems"(1) x(1)] hash_nodes_seg [OF "1.prems"(1) x(2)] odd by simp_all
    from "1.IH"(1) [OF a(2,1) "1.prems"(1-4) half] a(1,2) cp_run_odd [OF a(1) h] show ?thesis
      by (simp only: siblings.simps [of H ys l a] if_False if_True simp_thms)
  next
    case (right i)
    have a: "a mod 2 = 0" "a div 2 = i" using right by auto
    have "(2 * i + 1) * 2 ^ l \<le> b * 2 ^ l" using right by (intro mult_right_mono) auto
    with lens(3) have y: "(2 * i + 1) * 2 ^ l < length ys" by linarith
    have "seg xs (Suc l) i = seg xs l (2 * i)" using lens(2) right len by (intro seg_single) simp
    then have h: "hash_nodes H (hs H (seg ys l a)) (hs H (seg ys l (a + 1))) = Ok (hs H (seg ys (Suc l) (a div 2)))"
        "seg xs (Suc l) (a div 2) = seg xs l a"
      using hash_nodes_seg [OF "1.prems"(1) y] right(1) by simp_all
    from "1.IH"(2) [OF right(2) _ right(3) "1.prems"(1-4) half] right(2,3) a(1) cp_run_right [OF a(1) right(2,3) h(1)]
    show ?thesis by (simp only: siblings.simps [of H ys l a] h(2) if_False if_True simp_thms)
  next
    case (skip i)
    have a: "a mod 2 = 0" "a div 2 = i" using skip by auto
    have "length ys \<le> (b + 1) * 2 ^ l" using le_div_iff [OF len(3), of "b + 1" l] "1.prems"(6) by auto
    moreover have "(b + 1) * 2 ^ l \<le> (a + 1) * 2 ^ l" using skip by (intro mult_right_mono) auto
    ultimately have "length ys \<le> (a + 1) * 2 ^ l" by (rule order_trans)
    then have "seg xs (Suc l) i = seg xs l a" "seg ys (Suc l) i = seg ys l a"
      using lens(2) len skip(1) seg_single [of xs i l] seg_single [of ys i l] by simp_all
    then show ?thesis
      using "1.IH"(3) [OF skip(2) _ skip(3) "1.prems"(1-4) half] skip(2,3) a cp_run_skip [OF a(1) skip(2,3)]
      by (simp only: siblings.simps [of H ys l a] if_False if_True simp_thms)
  qed
qed

lemma cp_run_Some:
  "cp_run H a b oh nh proofs = Ok (Some (oh', nh')) \<Longrightarrow>
   \<exists>b' nh1 proofs'. cp_common H a b oh nh proofs = Ok (Some (b', oh', nh1, proofs')) \<and>
     cp_rest H b' nh1 proofs' = Ok (Some nh')"
  by (auto simp: cp_run_def split: option.splits)

text \<open>
  C15: Consistency proofs are complete: for every prefix of a ledger the sibling hashes of the visited
  nodes are a proof that the tree of the prefix accepts.
\<close>

theorem consistency_complete:
  assumes H: "total_hash H" and xs: "xs = take m ys" "m \<le> length ys" and mt: "from_vec H xs = Ok mt"
  shows "consistency_proof H mt (hs H ys) (length ys) (honest_proof H ys m) = Ok True"
proof (cases "m = 0 \<or> (m = length ys \<and> root_hash mt = hs H ys)")
  case True
  then show ?thesis using from_vec_Ok(2) [OF mt] xs by (auto simp: consistency_proof_def)
next
  case False
  define l where "l = trailing_ones (m - 1)"
  define a where "a = (m - 1) div 2 ^ l"
  define b where "b = (length ys - 1) div 2 ^ l"
  have m: "mt_count mt = m" "root_hash mt = hs H xs" using from_vec_Ok [OF mt] xs by (simp_all add: hs_def)
  have strip: "strip_odd (m - 1) (length ys - 1) = (a, b)"
    by (simp add: strip_odd_trailing a_def b_def l_def)
  have full: "(a + 1) * 2 ^ l = m"
    using trailing_ones_full [of "m - 1"] False by (simp add: a_def l_def)
  then have s: "seg xs l a = seg ys l a" by (simp add: xs(1) seg_prefix)
  have "cp_run H a b (hs H (seg xs l a)) (hs H (seg ys l a)) (siblings H ys l a b) = Ok (Some (hs H xs, hs H ys))"
    using False xs H by (intro cp_run_complete [of H xs m]) (simp_all add: a_def b_def)
  then obtain b' nh1 proofs' where
    run: "cp_common H a b (hs H (seg ys l a)) (hs H (seg ys l a)) (siblings H ys l a b) = Ok (Some (b', hs H xs, nh1, proofs'))"
      "cp_rest H b' nh1 proofs' = Ok (Some (hs H ys))"
    unfolding s by (blast dest: cp_run_Some)
  have "a = 0 \<Longrightarrow> hs H (seg ys l a) = hs H xs"
    using full xs by (simp add: seg_def)
  moreover have "honest_proof H ys m = (if a \<noteq> 0 then [hs H (seg ys l a)] else []) @ siblings H ys l a b"
    by (simp add: honest_proof_def a_def b_def l_def Let_def)
  moreover have "\<not> (m = length ys \<and> hs H xs = hs H ys)" "m \<noteq> 0" using False m by auto
  ultimately show ?thesis using xs(2) run strip
    by (cases "a = 0") (auto simp: consistency_proof_def m)
qed

theorem consistency_complete_witness:
  "total_hash pad_hash \<and> consistency_proof pad_hash (the (ok_val (from_vec pad_hash [[1], [2], [3]])))
     (hs pad_hash [[1], [2], [3], [4], [5]]) (length [[1], [2], [3], [4], [5 :: byte]])
     (honest_proof pad_hash [[1], [2], [3], [4], [5]] 3) = Ok True"
proof -
  have t: "total_hash pad_hash" by (simp add: total_hash_def pad_hash_def)
  have ok: "is_ok (from_vec pad_hash [[1], [2], [3]])" by code_simp
  have "[[1], [2], [3]] = take 3 [[1], [2], [3], [4], [5 :: byte]]" "3 \<le> length [[1], [2], [3], [4], [5 :: byte]]" by simp_all
  from t consistency_complete [OF t this is_ok_val [OF ok]] show ?thesis by blast
qed

definition benign :: "'a IndyResult \<Rightarrow> bool" where
  "benign m = (case m of Ok _ \<Rightarrow> True | Err e \<Rightarrow> e = InvalidState | Panic \<Rightarrow> False)"

lemma benign_bind: "benign m \<Longrightarrow> (\<And>x. m = Ok x \<Longrightarrow> benign (f x)) \<Longrightarrow> benign (bind_outcome m f)"
  by (cases m) (auto simp: benign_def)

lemma benign_simps [simp]: "benign (Ok x)" "benign (hash_nodes H l r)"
  using hash_nodes_cases [of H l r] by (auto simp: benign_def)

lemma benign_cp_rest: "benign (cp_rest H b nh prfs)"
proof (induction H b nh prfs rule: cp_rest.induct)
  case (1 H b nh prfs)
  then show ?case by (subst cp_rest.simps) (auto split: list.splits intro!: benign_bind)
qed

lemma benign_cp_common: "benign (cp_common H a b oh nh prfs)"
proof (induction H a b oh nh prfs rule: cp_common.induct)
  case (1 H a b oh nh prfs)
  then show ?case by (subst cp_common.simps) (auto split: list.splits intro!: benign_bind)
qed

text \<open>
  C34: The verifier answers every proof for a ledger at least as long as the local one: it accepts,
  rejects, or reports a failed hash. For a shorter ledger it panics (an \<open>assert!(false)\<close>) when the
  local tree is not empty.
\<close>

theorem consistency_answers:
  "if n < mt_count mt then consistency_proof H mt R n prfs = Panic
   else consistency_proof H mt R n prfs \<in> {Ok True, Ok False, Err InvalidState}"
proof (cases "n < mt_count mt")
  case True
  then show ?thesis by (auto simp: consistency_proof_def)
next
  case False
  then have "benign (consistency_proof H mt R n prfs)"
    unfolding consistency_proof_def Let_def
    by (auto split: prod.splits option.splits intro!: benign_bind benign_cp_common benign_cp_rest)
  with False show ?thesis by (auto simp: benign_def split: outcome.splits)
qed

end
