(* ===== verification/Json_Value.thy ===== *)
theory Json_Value
  imports Indy_Errors
begin

text \<open>
  Strings and JSON values, as far as several components share them. JSON values as \<open>serde_json::Value\<close> holds them. Text becomes a value and back by \<open>serde_json\<close>, which is
  not part of the repository; operations that use it take its functions as parameters. A Rust
  \<open>String\<close> is its list of UTF-8 bytes, written as characters; an object is the list of its entries in
  the iteration order of \<open>serde_json::Map\<close>.
\<close>

datatype number = PosInt nat | NegInt int | Float string

datatype json =
    JNull
  | JBool bool
  | JNumber number
  | JString string
  | JArray "json list"
  | JObject "(string \<times> json) list"

type_synonym json_map = "(string \<times> json) list"

definition into_bytes :: "string \<Rightarrow> bytes" where
  "into_bytes s = map of_char s"

lemma unat_of_char: "unat (of_char c :: byte) = (of_char c :: nat)"
proof -
  have "(of_char c :: byte) = word_of_nat (of_char c)" by (simp add: of_nat_of_char)
  moreover have "(of_char c :: nat) < 256" by (rule nat_of_char_less_256)
  ultimately show ?thesis by (simp add: unsigned_of_nat take_bit_nat_eq_self_iff)
qed

lemma of_char_byte_inj: "(of_char c :: byte) = of_char d \<longleftrightarrow> c = d"
  by (metis unat_of_char of_char_eq_iff)

lemma inj_into_bytes: "inj into_bytes"
  unfolding into_bytes_def by (intro inj_mapI injI) (simp add: of_char_byte_inj)

lemma into_bytes_eq [simp]: "into_bytes s = into_bytes t \<longleftrightarrow> s = t"
  using inj_into_bytes by (auto simp: inj_def)

section \<open>UTF-8\<close>

text \<open>\<open>String::from_utf8\<close> accepts the well-formed sequences of the Unicode standard.\<close>

definition cont_byte :: "nat \<Rightarrow> bool" where
  "cont_byte b = (128 \<le> b \<and> b \<le> 191)"

fun valid_utf8 :: "nat list \<Rightarrow> bool" where
  "valid_utf8 [] = True"
| "valid_utf8 (a # bs) =
     (if a < 128 then valid_utf8 bs
      else case bs of
        [] \<Rightarrow> False
      | b # cs \<Rightarrow>
          if 194 \<le> a \<and> a \<le> 223 then cont_byte b \<and> valid_utf8 cs
          else (case cs of
            [] \<Rightarrow> False
          | c # ds \<Rightarrow>
              if a = 224 then 160 \<le> b \<and> b \<le> 191 \<and> cont_byte c \<and> valid_utf8 ds
              else if a = 237 then 128 \<le> b \<and> b \<le> 159 \<and> cont_byte c \<and> valid_utf8 ds
              else if 225 \<le> a \<and> a \<le> 239 then cont_byte b \<and> cont_byte c \<and> valid_utf8 ds
              else (case ds of
                [] \<Rightarrow> False
              | d # es \<Rightarrow>
                  if a = 240 then 144 \<le> b \<and> b \<le> 191 \<and> cont_byte c \<and> cont_byte d \<and> valid_utf8 es
                  else if 241 \<le> a \<and> a \<le> 243 then cont_byte b \<and> cont_byte c \<and> cont_byte d \<and> valid_utf8 es
                  else if a = 244 then 128 \<le> b \<and> b \<le> 143 \<and> cont_byte c \<and> cont_byte d \<and> valid_utf8 es
                  else False)))"

definition from_utf8 :: "bytes \<Rightarrow> string option" where
  "from_utf8 bs = (if valid_utf8 (map unat bs) then Some (map (\<lambda>b. char_of (unat b)) bs) else None)"

text \<open>Rust strings hold well-formed UTF-8 only.\<close>

definition utf8 :: "string \<Rightarrow> bool" where
  "utf8 s = valid_utf8 (map of_char s)"

lemma from_utf8_into_bytes: "from_utf8 (into_bytes s) = (if utf8 s then Some s else None)"
proof -
  have "map unat (into_bytes s) = map of_char s"
    by (simp add: into_bytes_def unat_of_char)
  moreover have "map (\<lambda>b. char_of (unat b)) (into_bytes s) = s"
    by (simp add: into_bytes_def unat_of_char comp_def)
  ultimately show ?thesis by (simp add: from_utf8_def utf8_def)
qed

section \<open>Order of strings\<close>

text \<open>Strings compare byte by byte.\<close>

fun str_less :: "string \<Rightarrow> string \<Rightarrow> bool" where
  "str_less _ [] = False"
| "str_less [] (y # ys) = True"
| "str_less (x # xs) (y # ys) = (of_char x < (of_char y :: nat) \<or> (x = y \<and> str_less xs ys))"

lemma str_less_irrefl [simp]: "\<not> str_less s s"
  by (induction s) auto

lemma str_less_trans: "str_less a b \<Longrightarrow> str_less b c \<Longrightarrow> str_less a c"
proof (induction a b arbitrary: c rule: str_less.induct)
  case (2 y ys)
  then show ?case by (cases c) auto
next
  case (3 x xs y ys)
  then show ?case by (cases c) auto
qed simp

lemma str_less_total: "a \<noteq> b \<Longrightarrow> str_less a b \<or> str_less b a"
proof (induction a b rule: str_less.induct)
  case (3 x xs y ys)
  have "x = y \<or> of_char x < (of_char y :: nat) \<or> of_char y < (of_char x :: nat)"
    by (metis linorder_less_linear of_char_eq_iff)
  with 3 show ?case by auto
next
  case (1 s)
  then show ?case by (cases s) auto
qed simp

section \<open>Access to JSON values\<close>

text \<open>
  Indexing a value by a string gives \<open>null\<close> when it is not an object or has no such entry. An object
  is a \<open>BTreeMap\<close>: its entries are in ascending order of their keys, without repetitions.
\<close>

fun json_index :: "json \<Rightarrow> string \<Rightarrow> json" where
  "json_index (JObject kvs) k = (case map_of kvs k of None \<Rightarrow> JNull | Some v \<Rightarrow> v)"
| "json_index _ k = JNull"

fun as_u64 :: "json \<Rightarrow> nat option" where
  "as_u64 (JNumber (PosInt n)) = Some n"
| "as_u64 _ = None"

fun as_str :: "json \<Rightarrow> string option" where
  "as_str (JString s) = Some s"
| "as_str _ = None"

fun is_object :: "json \<Rightarrow> bool" where
  "is_object (JObject _) = True"
| "is_object _ = False"

fun json_remove :: "string \<Rightarrow> json \<Rightarrow> json" where
  "json_remove k (JObject kvs) = JObject (AList.delete k kvs)"
| "json_remove k v = v"

fun btree_insert :: "string \<Rightarrow> 'a \<Rightarrow> (string \<times> 'a) list \<Rightarrow> (string \<times> 'a) list" where
  "btree_insert k v [] = [(k, v)]"
| "btree_insert k v ((k', v') # m) =
     (if k = k' then (k, v) # m
      else if str_less k k' then (k, v) # (k', v') # m
      else (k', v') # btree_insert k v m)"

definition btree_ok :: "(string \<times> 'a) list \<Rightarrow> bool" where
  "btree_ok m = sorted_wrt (\<lambda>a b. str_less (fst a) (fst b)) m"

lemma map_of_btree_insert: "map_of (btree_insert k v m) = (map_of m)(k \<mapsto> v)"
  by (induction m) (auto simp: fun_eq_iff)

lemma set_btree_insert: "fst ` set (btree_insert k v m) = insert k (fst ` set m)"
proof (induction m)
  case (Cons e m)
  then show ?case by (cases e) (simp add: insert_commute)
qed simp

lemma btree_ok_insert: "btree_ok m \<Longrightarrow> btree_ok (btree_insert k v m)"
proof (induction m)
  case (Cons e m)
  obtain k' v' where e: "e = (k', v')" by fastforce
  have tail: "btree_ok (btree_insert k v m)" and above: "\<forall>x \<in> set m. str_less k' (fst x)"
    using Cons e by (auto simp: btree_ok_def)
  show ?case
  proof (cases "k = k' \<or> str_less k k'")
    case True
    with Cons.prems e show ?thesis by (auto simp: btree_ok_def intro: str_less_trans)
  next
    case False
    then have "str_less k' k" using str_less_total by blast
    then have "\<forall>y \<in> fst ` set (btree_insert k v m). str_less k' y"
      using above by (auto simp: set_btree_insert)
    with tail False e show ?thesis by (auto simp: btree_ok_def)
  qed
qed (simp add: btree_ok_def)

lemma btree_ok_distinct: "btree_ok m \<Longrightarrow> distinct (map fst m)"
  by (induction m) (auto simp: btree_ok_def)

lemma length_btree_insert:
  assumes "btree_ok m"
  shows "length (btree_insert k v m) = card (insert k (fst ` set m))"
proof -
  have "length (map fst (btree_insert k v m)) = card (set (map fst (btree_insert k v m)))"
    using btree_ok_distinct [OF btree_ok_insert [OF assms]] distinct_card by metis
  then show ?thesis using set_btree_insert [of k v m] by simp
qed

end
