(* ===== verification/Wallet_Language.thy ===== *)
theory Wallet_Language
  imports Json_Value
begin

text \<open>
  The wallet query language (\<open>services/wallet/language.rs\<close>): tag names and target values, the
  operator tree, its parser from a JSON object with the optimisation of single operands, its
  transformation leaf by leaf and its printer. The lemmas give the language a meaning over the tags
  of a record, show that optimisation keeps it, and that everything the parser returns is in the
  fragment the encryption and the SQL translation accept.
\<close>

section \<open>Tag names and values\<close>

datatype TagName = EncryptedTagName bytes | PlainTagName bytes

datatype TargetValue = Unencrypted string | Encrypted bytes

definition TagName_from :: "string \<Rightarrow> TagName IndyResult" where
  "TagName_from s =
     (if s = [] \<or> (hd s = CHR ''~'' \<and> length s = 1) then Err WalletQueryError
      else if hd s = CHR ''~'' then Ok (PlainTagName (drop 1 (into_bytes s)))
      else Ok (EncryptedTagName (into_bytes s)))"

definition TargetValue_from :: "string \<Rightarrow> TargetValue" where
  "TargetValue_from s = Unencrypted s"

section \<open>Operators\<close>

datatype Operator =
    And "Operator list"
  | Or "Operator list"
  | Not Operator
  | Eq TagName TargetValue
  | Neq TagName TargetValue
  | Gt TagName TargetValue
  | Gte TagName TargetValue
  | Lt TagName TargetValue
  | Lte TagName TargetValue
  | Like TagName TargetValue
  | In TagName "TargetValue list"

fun transform :: "Operator \<Rightarrow> (Operator \<Rightarrow> Operator IndyResult) \<Rightarrow> Operator IndyResult" where
  "transform (And operators) f =
     bind_outcome (map_outcome (\<lambda>operator. transform operator f) operators) (\<lambda>ops. Ok (And ops))"
| "transform (Or operators) f =
     bind_outcome (map_outcome (\<lambda>operator. transform operator f) operators) (\<lambda>ops. Ok (Or ops))"
| "transform (Not operator) f = bind_outcome (transform operator f) (\<lambda>op. Ok (Not op))"
| "transform operator f = f operator"

fun optimise :: "Operator \<Rightarrow> Operator" where
  "optimise (Not boxed_operator) =
     (case boxed_operator of Not nested_operator \<Rightarrow> nested_operator | _ \<Rightarrow> Not boxed_operator)"
| "optimise (And suboperators) = (if length suboperators = 1 then hd suboperators else And suboperators)"
| "optimise (Or suboperators) = (if length suboperators = 1 then hd suboperators else Or suboperators)"
| "optimise (In key targets) = (if length targets = 1 then Eq key (hd targets) else In key targets)"
| "optimise operator = operator"

subsection \<open>Printing\<close>

text \<open>\<open>base64::encode\<close> belongs to a library and is a parameter of the printer.\<close>

type_synonym base64_encode = "bytes \<Rightarrow> string"

fun TagName_to_string :: "base64_encode \<Rightarrow> TagName \<Rightarrow> string" where
  "TagName_to_string b64 (EncryptedTagName v) = ''\"'' @ b64 v @ ''\"''"
| "TagName_to_string b64 (PlainTagName v) = ''\"~'' @ b64 v @ ''\"''"

fun TargetValue_to_string :: "base64_encode \<Rightarrow> TargetValue \<Rightarrow> string" where
  "TargetValue_to_string b64 (Unencrypted s) = ''\"'' @ s @ ''\"''"
| "TargetValue_to_string b64 (Encrypted v) = ''\"'' @ b64 v @ ''\"''"

fun join :: "string \<Rightarrow> string list \<Rightarrow> string" where
  "join sep [] = []"
| "join sep [s] = s"
| "join sep (s # ss) = s @ sep @ join sep ss"

definition compare_to_string :: "base64_encode \<Rightarrow> string \<Rightarrow> TagName \<Rightarrow> TargetValue \<Rightarrow> string" where
  "compare_to_string b64 opn name v =
     ''{'' @ TagName_to_string b64 name @ '':{\"'' @ opn @ ''\":'' @ TargetValue_to_string b64 v @ ''}}''"

fun Operator_to_string :: "base64_encode \<Rightarrow> Operator \<Rightarrow> string" where
  "Operator_to_string b64 (Eq name v) =
     ''{'' @ TagName_to_string b64 name @ '':'' @ TargetValue_to_string b64 v @ ''}''"
| "Operator_to_string b64 (Neq name v) = compare_to_string b64 ''$neq'' name v"
| "Operator_to_string b64 (Gt name v) = compare_to_string b64 ''$gt'' name v"
| "Operator_to_string b64 (Gte name v) = compare_to_string b64 ''$gte'' name v"
| "Operator_to_string b64 (Lt name v) = compare_to_string b64 ''$lt'' name v"
| "Operator_to_string b64 (Lte name v) = compare_to_string b64 ''$lte'' name v"
| "Operator_to_string b64 (Like name v) = compare_to_string b64 ''$like'' name v"
| "Operator_to_string b64 (In name vs) =
     ''{'' @ TagName_to_string b64 name @ '':{\"$in\":['' @ join '','' (map (TargetValue_to_string b64) vs) @ '']}}''"
| "Operator_to_string b64 (And operators) =
     (if length operators > 0
      then ''{\"$and\":['' @ join '','' (map (Operator_to_string b64) operators) @ '']}'' else ''{}'')"
| "Operator_to_string b64 (Or operators) =
     (if length operators > 0
      then ''{\"$or\":['' @ join '','' (map (Operator_to_string b64) operators) @ '']}'' else ''{}'')"
| "Operator_to_string b64 (Not stmt) = ''{\"$not\":'' @ Operator_to_string b64 stmt @ ''}''"

subsection \<open>Parsing\<close>

text \<open>\<open>parse_plain\<close> is the branch that \<open>$gt\<close>, \<open>$gte\<close>, \<open>$lt\<close>, \<open>$lte\<close> and \<open>$like\<close> share.\<close>

definition parse_plain :: "(TagName \<Rightarrow> TargetValue \<Rightarrow> Operator) \<Rightarrow> string \<Rightarrow> json \<Rightarrow> Operator IndyResult" where
  "parse_plain mk key v =
     (case v of
        JString s \<Rightarrow>
          bind_outcome (TagName_from key)
            (\<lambda>target_name. case target_name of
               PlainTagName _ \<Rightarrow> Ok (mk target_name (TargetValue_from s))
             | EncryptedTagName _ \<Rightarrow> Err WalletQueryError)
      | _ \<Rightarrow> Err WalletQueryError)"

definition json_to_target :: "json \<Rightarrow> TargetValue IndyResult" where
  "json_to_target v = (case v of JString s \<Rightarrow> Ok (TargetValue_from s) | _ \<Rightarrow> Err WalletQueryError)"

definition parse_single_operator :: "string \<Rightarrow> string \<Rightarrow> json \<Rightarrow> Operator IndyResult" where
  "parse_single_operator operator_name key v =
     (if operator_name = ''$neq'' then
        (case v of JString s \<Rightarrow> bind_outcome (TagName_from key) (\<lambda>n. Ok (Neq n (TargetValue_from s)))
         | _ \<Rightarrow> Err WalletQueryError)
      else if operator_name = ''$gt'' then parse_plain Gt key v
      else if operator_name = ''$gte'' then parse_plain Gte key v
      else if operator_name = ''$lt'' then parse_plain Lt key v
      else if operator_name = ''$lte'' then parse_plain Lte key v
      else if operator_name = ''$like'' then parse_plain Like key v
      else if operator_name = ''$in'' then
        (case v of
           JArray vs \<Rightarrow> bind_outcome (map_outcome json_to_target vs)
             (\<lambda>target_values. bind_outcome (TagName_from key) (\<lambda>n. Ok (In n target_values)))
         | _ \<Rightarrow> Err WalletQueryError)
      else Err WalletQueryError)"

function (sequential) parse :: "json_map \<Rightarrow> Operator IndyResult"
  and parse_entries :: "json_map \<Rightarrow> Operator list IndyResult"
  and parse_objects :: "json list \<Rightarrow> Operator list IndyResult"
  and parse_operator :: "string \<Rightarrow> json \<Rightarrow> Operator IndyResult" where
  "parse m = bind_outcome (parse_entries m) (\<lambda>operators. Ok (optimise (And operators)))"
| "parse_entries [] = Ok []"
| "parse_entries ((key, v) # m) =
     bind_outcome (parse_operator key v) (\<lambda>op. bind_outcome (parse_entries m) (\<lambda>ops. Ok (op # ops)))"
| "parse_objects [] = Ok []"
| "parse_objects (JObject m # vs) =
     bind_outcome (parse m) (\<lambda>op. bind_outcome (parse_objects vs) (\<lambda>ops. Ok (op # ops)))"
| "parse_objects (_ # vs) = Err WalletQueryError"
| "parse_operator key v =
     (if key = ''$and'' then
        (case v of JArray vs \<Rightarrow> bind_outcome (parse_objects vs) (\<lambda>ops. Ok (And ops)) | _ \<Rightarrow> Err WalletQueryError)
      else if key = ''$or'' then
        (case v of JArray vs \<Rightarrow> bind_outcome (parse_objects vs) (\<lambda>ops. Ok (Or ops)) | _ \<Rightarrow> Err WalletQueryError)
      else if key = ''$not'' then
        (case v of JObject m \<Rightarrow> bind_outcome (parse m) (\<lambda>op. Ok (Not op)) | _ \<Rightarrow> Err WalletQueryError)
      else
        (case v of
           JString s \<Rightarrow> bind_outcome (TagName_from key) (\<lambda>n. Ok (Eq n (TargetValue_from s)))
         | JObject m \<Rightarrow>
             (case m of
                [(operator_name, w)] \<Rightarrow> parse_single_operator operator_name key w
              | _ \<Rightarrow> Err WalletQueryError)
         | _ \<Rightarrow> Err WalletQueryError))"
  by pat_completeness auto
termination
  by (relation "measure (\<lambda>x. case x of
        Inl (Inl m) \<Rightarrow> 2 * size_list (size_prod (\<lambda>_. 0) size) m + 1
      | Inl (Inr m) \<Rightarrow> 2 * size_list (size_prod (\<lambda>_. 0) size) m
      | Inr (Inl vs) \<Rightarrow> 2 * size_list size vs
      | Inr (Inr (k, v)) \<Rightarrow> 2 * size v)") auto

definition parse_from_json :: "(string \<Rightarrow> json option) \<Rightarrow> string \<Rightarrow> Operator IndyResult" where
  "parse_from_json from_str j =
     bind_outcome (ok_or (from_str j) WalletQueryError)
       (\<lambda>query. case query of JObject m \<Rightarrow> parse m | _ \<Rightarrow> Err WalletQueryError)"

section \<open>Meaning of a query\<close>

text \<open>
  A query is evaluated over the tags of one record, seen as pairs of a tag name and a value.
  Comparisons of plaintext values are byte-wise, as in SQLite; the pattern match of \<open>$like\<close> is a
  parameter.
\<close>

type_synonym tag_view = "(TagName \<times> TargetValue) list"
type_synonym like_match = "string \<Rightarrow> string \<Rightarrow> bool"

fun on_plain :: "(string \<Rightarrow> string \<Rightarrow> bool) \<Rightarrow> TargetValue \<Rightarrow> TargetValue \<Rightarrow> bool" where
  "on_plain P (Unencrypted a) (Unencrypted b) = P a b"
| "on_plain P _ _ = False"

definition some_tag :: "tag_view \<Rightarrow> TagName \<Rightarrow> (TargetValue \<Rightarrow> bool) \<Rightarrow> bool" where
  "some_tag view n P = list_ex (\<lambda>(m, v). m = n \<and> P v) view"

fun holds :: "like_match \<Rightarrow> tag_view \<Rightarrow> Operator \<Rightarrow> bool" where
  "holds lk view (And ops) = list_all (holds lk view) ops"
| "holds lk view (Or ops) = list_ex (holds lk view) ops"
| "holds lk view (Not op) = (\<not> holds lk view op)"
| "holds lk view (Eq n v) = some_tag view n (\<lambda>w. w = v)"
| "holds lk view (Neq n v) = some_tag view n (\<lambda>w. w \<noteq> v)"
| "holds lk view (Gt n v) = some_tag view n (\<lambda>w. on_plain (\<lambda>a b. str_less b a) w v)"
| "holds lk view (Gte n v) = some_tag view n (\<lambda>w. on_plain (\<lambda>a b. \<not> str_less a b) w v)"
| "holds lk view (Lt n v) = some_tag view n (\<lambda>w. on_plain str_less w v)"
| "holds lk view (Lte n v) = some_tag view n (\<lambda>w. on_plain (\<lambda>a b. \<not> str_less b a) w v)"
| "holds lk view (Like n v) = some_tag view n (\<lambda>w. on_plain lk w v)"
| "holds lk view (In n vs) = some_tag view n (\<lambda>w. w \<in> set vs)"

text \<open>
  The contract of an evaluator of queries: connectives are the Boolean ones and a list of one value
  is an equality. Optimisation is sound for every such evaluator.
\<close>

locale query_evaluator =
  fixes ev :: "Operator \<Rightarrow> bool"
  assumes ev_And: "ev (And ops) = (\<forall>op \<in> set ops. ev op)"
    and ev_Or: "ev (Or ops) = (\<exists>op \<in> set ops. ev op)"
    and ev_Not: "ev (Not op) = (\<not> ev op)"
    and ev_In_single: "ev (In n [v]) = ev (Eq n v)"
begin

lemma optimise_same: "ev (optimise op) = ev op"
proof (cases op)
  case (In n vs)
  then show ?thesis by (cases vs) (auto simp: ev_In_single)
qed (auto simp: ev_And ev_Or ev_Not length_Suc_conv split: Operator.splits)

lemma parse_conjunction: "parse m = Ok op \<Longrightarrow> parse_entries m = Ok ops \<Longrightarrow> ev op = (\<forall>o' \<in> set ops. ev o')"
  by (auto simp: optimise_same ev_And simp del: optimise.simps)

end

interpretation tags: query_evaluator "holds lk view" for lk view
proof
  show "holds lk view (In n [v]) = holds lk view (Eq n v)" for n v by simp
qed (simp_all add: list_all_iff list_ex_iff)

subsection \<open>What the parser returns\<close>

text \<open>Values are plaintext, and only equality, inequality and \<open>$in\<close> take an encrypted tag name.\<close>

fun plain_value :: "TargetValue \<Rightarrow> bool" where
  "plain_value (Unencrypted _) = True"
| "plain_value (Encrypted _) = False"

fun plain_name :: "TagName \<Rightarrow> bool" where
  "plain_name (PlainTagName _) = True"
| "plain_name (EncryptedTagName _) = False"

fun plain_query :: "Operator \<Rightarrow> bool" where
  "plain_query (And ops) = list_all plain_query ops"
| "plain_query (Or ops) = list_all plain_query ops"
| "plain_query (Not op) = plain_query op"
| "plain_query (Eq n v) = plain_value v"
| "plain_query (Neq n v) = plain_value v"
| "plain_query (Gt n v) = (plain_name n \<and> plain_value v)"
| "plain_query (Gte n v) = (plain_name n \<and> plain_value v)"
| "plain_query (Lt n v) = (plain_name n \<and> plain_value v)"
| "plain_query (Lte n v) = (plain_name n \<and> plain_value v)"
| "plain_query (Like n v) = (plain_name n \<and> plain_value v)"
| "plain_query (In n vs) = list_all plain_value vs"

lemma plain_query_optimise: "plain_query op \<Longrightarrow> plain_query (optimise op)"
proof (cases op)
  case (In n vs)
  moreover assume "plain_query op"
  ultimately show ?thesis by (cases vs) auto
qed (auto simp: length_Suc_conv split: Operator.splits)

lemma parse_plain_ok:
  "parse_plain mk key v = Ok op \<Longrightarrow> (\<And>n w. plain_name n \<Longrightarrow> plain_value w \<Longrightarrow> plain_query (mk n w)) \<Longrightarrow> plain_query op"
proof -
  assume "parse_plain mk key v = Ok op" and mk: "\<And>n w. plain_name n \<Longrightarrow> plain_value w \<Longrightarrow> plain_query (mk n w)"
  then obtain s n where "(case n of PlainTagName _ \<Rightarrow> Ok (mk n (TargetValue_from s)) | EncryptedTagName _ \<Rightarrow> Err WalletQueryError) = Ok op"
    by (auto simp: parse_plain_def split: json.splits)
  then show ?thesis by (cases n) (auto simp: TargetValue_from_def intro: mk)
qed

lemma json_to_target_plain: "map_outcome json_to_target vs = Ok ts \<Longrightarrow> list_all plain_value ts"
  by (induction vs arbitrary: ts) (auto simp: json_to_target_def TargetValue_from_def split: json.splits)

lemma parse_single_plain: "parse_single_operator o' key v = Ok op \<Longrightarrow> plain_query op"
  unfolding parse_single_operator_def
  by (auto simp: TargetValue_from_def split: if_splits json.splits
      dest: json_to_target_plain elim!: parse_plain_ok)

lemma parse_plain_query:
  "parse m = Ok op \<Longrightarrow> plain_query op"
  "parse_entries m = Ok ops \<Longrightarrow> list_all plain_query ops"
  "parse_objects vs = Ok ops \<Longrightarrow> list_all plain_query ops"
  "parse_operator key v = Ok op \<Longrightarrow> plain_query op"
proof (induction m and m and vs and key v arbitrary: op and ops and ops and op
    rule: parse_parse_entries_parse_objects_parse_operator.induct)
  case (1 m)
  then show ?case by (auto intro!: plain_query_optimise simp del: optimise.simps)
next
  case (7 key v)
  then show ?case
    by (auto simp: TargetValue_from_def dest: parse_single_plain split: if_splits json.splits list.splits simp del: parse.simps)
qed (auto simp del: parse.simps parse_operator.simps)

subsection \<open>The parser answers every query\<close>

definition query_answer :: "'a IndyResult \<Rightarrow> bool" where
  "query_answer m = (is_ok m \<or> m = Err WalletQueryError)"

lemma query_answer_simps [simp]: "query_answer (Ok x)" "query_answer (Err WalletQueryError)"
  by (simp_all add: query_answer_def)

lemma query_answer_bind: "query_answer m \<Longrightarrow> (\<And>x. m = Ok x \<Longrightarrow> query_answer (f x)) \<Longrightarrow> query_answer (bind_outcome m f)"
  by (cases m) (auto simp: query_answer_def)

lemma query_answer_TagName [simp]: "query_answer (TagName_from s)"
  by (simp add: TagName_from_def)

lemma query_answer_map: "(\<And>x. x \<in> set xs \<Longrightarrow> query_answer (f x)) \<Longrightarrow> query_answer (map_outcome f xs)"
  by (induction xs) (auto intro!: query_answer_bind)

lemma query_answer_parse_plain [simp]: "query_answer (parse_plain mk key v)"
  by (auto simp: parse_plain_def split: json.splits TagName.splits intro!: query_answer_bind)

lemma query_answer_target [simp]: "query_answer (json_to_target v)"
  by (cases v) (simp_all add: json_to_target_def)

lemma query_answer_single: "query_answer (parse_single_operator o' key v)"
  unfolding parse_single_operator_def
  by (cases v) (simp_all add: query_answer_bind query_answer_map)

lemma query_answer_parse:
  "query_answer (parse m)" "query_answer (parse_entries m)" "query_answer (parse_objects vs)" "query_answer (parse_operator key v)"
proof (induction m and m and vs and key v rule: parse_parse_entries_parse_objects_parse_operator.induct)
  case (7 key v)
  then show ?case
    by (auto simp del: parse.simps split: json.splits list.splits intro!: query_answer_bind query_answer_single)
qed (auto simp del: parse_operator.simps intro!: query_answer_bind simp: query_answer_bind)

lemma parse_from_json_plain: "parse_from_json from_str j = Ok op \<Longrightarrow> plain_query op"
proof -
  assume "parse_from_json from_str j = Ok op"
  then obtain v where "(case v of JObject m \<Rightarrow> parse m | _ \<Rightarrow> Err WalletQueryError) = Ok op"
    unfolding parse_from_json_def bind_eq_Ok by blast
  then show ?thesis using parse_plain_query(1) by (cases v) (auto simp del: parse.simps)
qed

text \<open>
  C31: The query parser answers every text: it reports \<open>WalletQueryError\<close> or returns a query whose
  values are plaintext and whose order and pattern comparisons are on plaintext tags only.
\<close>

theorem parse_from_json_answers:
  "parse_from_json from_str j = Err WalletQueryError \<or> (\<exists>op. parse_from_json from_str j = Ok op \<and> plain_query op)"
proof (cases "from_str j")
  case (Some v)
  have "query_answer (parse_from_json from_str j)"
    using Some query_answer_parse(1) by (auto simp: parse_from_json_def split: json.splits)
  then show ?thesis using parse_from_json_plain by (auto simp: query_answer_def is_ok_def split: outcome.splits)
qed (simp add: parse_from_json_def)

text \<open>
  C35: Optimising an operator (dropping a double negation, a connective of one operand, a list of one
  value) does not change which records it selects.
\<close>

theorem optimise_keeps_meaning: "holds lk view (optimise op) = holds lk view op"
  by (rule tags.optimise_same)

end
