(* ===== verification/Chacha_Stream.thy ===== *)
theory Chacha_Stream
  imports Indy_Errors
begin

text \<open>
  Authenticated encryption (\<open>utils/crypto/chacha20poly1305_ietf/sodium.rs\<close>): one-shot encryption and
  decryption, and the chunked \<open>Writer\<close> and \<open>Reader\<close> the wallet export and import stream through.
  libsodium is not part of the repository: a record \<open>aead\<close> of its functions is a parameter, and
  \<open>aead_laws\<close> states what it documents. The lemmas show that the chunked stream depends only on the
  bytes written, not on how they were split into writes, and that reading it back in pieces of any
  sizes returns those bytes.
\<close>

section \<open>The AEAD construction\<close>

record aead =
  seal :: "bytes \<Rightarrow> bytes \<Rightarrow> bytes \<Rightarrow> bytes"
  aead_open :: "bytes \<Rightarrow> bytes \<Rightarrow> bytes \<Rightarrow> bytes option"
  increment_le :: "bytes \<Rightarrow> bytes"

definition KEYBYTES :: nat where
  "KEYBYTES = 32"

definition NONCEBYTES :: nat where
  "NONCEBYTES = 12"

definition TAGBYTES :: nat where
  "TAGBYTES = 16"

text \<open>Arguments in the order data, nonce, key.\<close>

definition aead_laws :: "aead \<Rightarrow> bool" where
  "aead_laws A = ((\<forall>d n k. aead_open A (seal A d n k) n k = Some d) \<and>
     (\<forall>d n k. length (seal A d n k) = length d + TAGBYTES))"

lemma aead_open_seal [simp]: "aead_laws A \<Longrightarrow> aead_open A (seal A d n k) n k = Some d"
  by (simp add: aead_laws_def)

lemma length_seal [simp]: "aead_laws A \<Longrightarrow> length (seal A d n k) = length d + TAGBYTES"
  by (simp add: aead_laws_def)

definition encrypt :: "aead \<Rightarrow> bytes \<Rightarrow> bytes \<Rightarrow> bytes \<Rightarrow> bytes" where
  "encrypt A d key nonce = seal A d nonce key"

definition decrypt :: "aead \<Rightarrow> bytes \<Rightarrow> bytes \<Rightarrow> bytes \<Rightarrow> bytes IndyResult" where
  "decrypt A d key nonce = ok_or (aead_open A d nonce key) InvalidStructure"

text \<open>The nonce comes from the random generator and is an argument here.\<close>

definition gen_nonce_and_encrypt :: "aead \<Rightarrow> bytes \<Rightarrow> bytes \<Rightarrow> bytes \<Rightarrow> bytes \<times> bytes" where
  "gen_nonce_and_encrypt A nonce d key = (seal A d nonce key, nonce)"

section \<open>Writing\<close>

datatype io_error = UnexpectedEof | InvalidData | Interrupted | OtherIo

text \<open>
  The inner writer is a function from the bytes to write and its state to success and the new state.
  The loop of \<open>write\<close> does not end for a chunk size of zero, so it is a partial function: \<open>None\<close> is a
  call that never returns.
\<close>

type_synonym 'w sink = "bytes \<Rightarrow> 'w \<Rightarrow> bool \<times> 'w"

record 'w Writer =
  w_buffer :: bytes
  w_chunk_size :: nat
  w_key :: bytes
  w_nonce :: bytes
  w_inner :: 'w

definition writer_new :: "'w \<Rightarrow> bytes \<Rightarrow> bytes \<Rightarrow> nat \<Rightarrow> 'w Writer" where
  "writer_new inner key nonce chunk_size =
     \<lparr>w_buffer = [], w_chunk_size = chunk_size, w_key = key, w_nonce = nonce, w_inner = inner\<rparr>"

partial_function (option) write_loop ::
  "aead \<Rightarrow> 'w sink \<Rightarrow> nat \<Rightarrow> 'w Writer \<Rightarrow> ((nat, io_error) outcome \<times> 'w Writer) option" where
  "write_loop A sink chunk_start w =
     (if length (w_buffer w) \<ge> chunk_start + w_chunk_size w then
        (case sink (encrypt A (take (w_chunk_size w) (drop chunk_start (w_buffer w))) (w_key w) (w_nonce w)) (w_inner w) of
           (ok, inner') \<Rightarrow>
             if ok then write_loop A sink (chunk_start + w_chunk_size w)
                          (w\<lparr>w_inner := inner', w_nonce := increment_le A (w_nonce w)\<rparr>)
             else Some (Err OtherIo, w\<lparr>w_inner := inner'\<rparr>))
      else Some (Ok chunk_start, w))"

definition writer_write ::
  "aead \<Rightarrow> 'w sink \<Rightarrow> bytes \<Rightarrow> 'w Writer \<Rightarrow> ((nat, io_error) outcome \<times> 'w Writer) option" where
  "writer_write A sink buf w =
     (case write_loop A sink 0 (w\<lparr>w_buffer := w_buffer w @ buf\<rparr>) of
        None \<Rightarrow> None
      | Some (Ok chunk_start, w') \<Rightarrow>
          Some (Ok (length buf), if chunk_start > 0 then w'\<lparr>w_buffer := drop chunk_start (w_buffer w')\<rparr> else w')
      | Some (Err e, w') \<Rightarrow> Some (Err e, w')
      | Some (Panic, w') \<Rightarrow> Some (Panic, w'))"

text \<open>\<open>flush\<close> sends what is buffered; flushing the \<open>Vec\<close> itself does nothing, so the buffer stays.\<close>

definition writer_flush :: "aead \<Rightarrow> 'w sink \<Rightarrow> 'w Writer \<Rightarrow> (unit, io_error) outcome \<times> 'w Writer" where
  "writer_flush A sink w =
     (if length (w_buffer w) > 0 then
        (case sink (encrypt A (w_buffer w) (w_key w) (w_nonce w)) (w_inner w) of
           (ok, inner') \<Rightarrow>
             if ok then (Ok (), w\<lparr>w_inner := inner', w_nonce := increment_le A (w_nonce w)\<rparr>)
             else (Err OtherIo, w\<lparr>w_inner := inner'\<rparr>))
      else (Ok (), w))"

section \<open>Reading\<close>

text \<open>
  The inner reader fills at most the given number of bytes. The chunk buffer is represented by its
  length: only the bytes read into it in the same call are looked at.
\<close>

type_synonym 'r source = "'r \<Rightarrow> nat \<Rightarrow> (bytes, io_error) outcome \<times> 'r"

record 'r Reader =
  rest_buffer :: bytes
  chunk_buffer_len :: nat
  r_key :: bytes
  r_nonce :: bytes
  r_inner :: 'r

definition reader_new :: "'r \<Rightarrow> bytes \<Rightarrow> bytes \<Rightarrow> nat \<Rightarrow> 'r Reader" where
  "reader_new inner key nonce chunk_size =
     \<lparr>rest_buffer = [], chunk_buffer_len = chunk_size + TAGBYTES, r_key = key, r_nonce = nonce, r_inner = inner\<rparr>"

partial_function (option) read_chunk_loop ::
  "'r source \<Rightarrow> nat \<Rightarrow> bytes \<Rightarrow> 'r \<Rightarrow> ((bytes, io_error) outcome \<times> 'r) option" where
  "read_chunk_loop src len got r =
     (if length got < len then
        (case src r (len - length got) of
           (Ok bs, r') \<Rightarrow> if bs = [] then Some (Ok got, r') else read_chunk_loop src len (got @ bs) r'
         | (Err e, r') \<Rightarrow> if e = Interrupted then read_chunk_loop src len got r' else Some (Err e, r')
         | (Panic, r') \<Rightarrow> Some (Panic, r'))
      else Some (Ok got, r))"

definition read_chunk :: "'r source \<Rightarrow> 'r Reader \<Rightarrow> ((bytes, io_error) outcome \<times> 'r Reader) option" where
  "read_chunk src rd =
     (case read_chunk_loop src (chunk_buffer_len rd) [] (r_inner rd) of
        None \<Rightarrow> None
      | Some (res, r') \<Rightarrow>
          Some (bind_outcome res (\<lambda>got. if got = [] then Err UnexpectedEof else Ok got), rd\<lparr>r_inner := r'\<rparr>))"

text \<open>The second loop of \<open>read\<close>: \<open>got\<close> is what the caller's buffer of length \<open>n\<close> holds so far.\<close>

partial_function (option) read_loop ::
  "aead \<Rightarrow> 'r source \<Rightarrow> nat \<Rightarrow> bytes \<Rightarrow> 'r Reader \<Rightarrow> ((bytes, io_error) outcome \<times> 'r Reader) option" where
  "read_loop A src n got rd =
     (if length got < n then
        (case read_chunk src rd of
           None \<Rightarrow> None
         | Some (Ok c, rd1) \<Rightarrow>
             (case decrypt A c (r_key rd1) (r_nonce rd1) of
                Ok chunk \<Rightarrow>
                  (let to_copy = min (length chunk) (n - length got);
                       got' = got @ take to_copy chunk;
                       rd2 = rd1\<lparr>r_nonce := increment_le A (r_nonce rd1)\<rparr>;
                       rd3 = (if length got' = n \<and> to_copy < length chunk
                              then rd2\<lparr>rest_buffer := rest_buffer rd2 @ drop to_copy chunk\<rparr> else rd2)
                   in read_loop A src n got' rd3)
              | _ \<Rightarrow> Some (Err InvalidData, rd1))
         | Some (Err e, rd1) \<Rightarrow> Some (Err e, rd1)
         | Some (Panic, rd1) \<Rightarrow> Some (Panic, rd1))
      else Some (Ok got, rd))"

definition reader_read ::
  "aead \<Rightarrow> 'r source \<Rightarrow> nat \<Rightarrow> 'r Reader \<Rightarrow> ((bytes, io_error) outcome \<times> 'r Reader) option" where
  "reader_read A src n rd =
     (let to_copy = min (length (rest_buffer rd)) n
      in read_loop A src n (take to_copy (rest_buffer rd)) (rd\<lparr>rest_buffer := drop to_copy (rest_buffer rd)\<rparr>))"

section \<open>The encrypted stream\<close>

text \<open>
  The specification: the data is cut into chunks, the last one possibly shorter, and chunk number
  \<open>i\<close> is sealed with the nonce incremented \<open>i\<close> times.
\<close>

function enc_stream :: "aead \<Rightarrow> bytes \<Rightarrow> bytes \<Rightarrow> nat \<Rightarrow> bytes \<Rightarrow> bytes" where
  "enc_stream A key nonce cs d =
     (if d = [] \<or> cs = 0 then []
      else seal A (take cs d) nonce key @ enc_stream A key (increment_le A nonce) cs (drop cs d))"
  by pat_completeness auto
termination
  by (relation "measure (\<lambda>(A, key, nonce, cs, d). length d)") auto

declare enc_stream.simps [simp del]

lemma enc_stream_Nil [simp]: "enc_stream A key nonce cs [] = []"
  by (simp add: enc_stream.simps)

lemma enc_stream_append:
  "0 < cs \<Longrightarrow> length x = k * cs \<Longrightarrow>
   enc_stream A key nonce cs (x @ y) = enc_stream A key nonce cs x @ enc_stream A key ((increment_le A ^^ k) nonce) cs y"
proof (induction k arbitrary: x nonce)
  case (Suc k)
  then have ne: "x \<noteq> []" and len: "cs \<le> length x" "length (drop cs x) = k * cs" by auto
  from Suc.IH [OF Suc.prems(1) len(2)] show ?case
    using ne Suc.prems(1) len(1)
    by (simp add: enc_stream.simps [of A key nonce cs "x @ y"] enc_stream.simps [of A key nonce cs x] funpow_swap1)
qed simp

lemma enc_stream_short: "0 < length d \<Longrightarrow> length d \<le> cs \<Longrightarrow> enc_stream A key nonce cs d = seal A d nonce key"
  by (subst enc_stream.simps) auto

subsection \<open>What the writer sends\<close>

definition vec_sink :: "bytes sink" where
  "vec_sink bs w = (True, w @ bs)"

lemma write_loop_vec:
  "0 < w_chunk_size w \<Longrightarrow> length (w_buffer w) - c = q * w_chunk_size w + r \<Longrightarrow> r < w_chunk_size w \<Longrightarrow> c \<le> length (w_buffer w) \<Longrightarrow>
   write_loop A vec_sink c w = Some (Ok (c + q * w_chunk_size w),
     w\<lparr>w_inner := w_inner w @ enc_stream A (w_key w) (w_nonce w) (w_chunk_size w)
                    (take (q * w_chunk_size w) (drop c (w_buffer w))),
       w_nonce := (increment_le A ^^ q) (w_nonce w)\<rparr>)"
proof (induction q arbitrary: c w)
  case 0
  then have "\<not> length (w_buffer w) \<ge> c + w_chunk_size w" by auto
  then show ?case by (subst write_loop.simps) simp
next
  case (Suc q)
  let ?cs = "w_chunk_size w"
  let ?chunk = "take ?cs (drop c (w_buffer w))"
  let ?w = "w\<lparr>w_inner := w_inner w @ seal A ?chunk (w_nonce w) (w_key w), w_nonce := increment_le A (w_nonce w)\<rparr>"
  have le: "c + ?cs \<le> length (w_buffer w)" using Suc.prems by auto
  have IH: "write_loop A vec_sink (c + ?cs) ?w = Some (Ok (c + ?cs + q * ?cs),
     ?w\<lparr>w_inner := w_inner ?w @ enc_stream A (w_key w) (increment_le A (w_nonce w)) ?cs
                    (take (q * ?cs) (drop (c + ?cs) (w_buffer w))),
       w_nonce := (increment_le A ^^ q) (increment_le A (w_nonce w))\<rparr>)"
    using Suc.IH [of ?w "c + ?cs"] Suc.prems le by simp
  have step: "write_loop A vec_sink c w = write_loop A vec_sink (c + ?cs) ?w"
    using le by (subst write_loop.simps) (simp add: vec_sink_def encrypt_def)
  have ne: "take (Suc q * ?cs) (drop c (w_buffer w)) \<noteq> []" using le Suc.prems(1) by auto
  have "enc_stream A (w_key w) (w_nonce w) ?cs (take (Suc q * ?cs) (drop c (w_buffer w))) =
      seal A ?chunk (w_nonce w) (w_key w) @
      enc_stream A (w_key w) (increment_le A (w_nonce w)) ?cs (take (q * ?cs) (drop (c + ?cs) (w_buffer w)))"
    using ne Suc.prems(1)
    by (subst enc_stream.simps) (simp add: drop_take add.commute min_def)
  with IH step show ?case by (simp add: funpow_swap1 add.assoc)
qed

text \<open>The state of a writer that was created with a nonce and given the bytes \<open>x\<close> so far.\<close>

definition written :: "aead \<Rightarrow> bytes \<Rightarrow> bytes \<Rightarrow> nat \<Rightarrow> bytes \<Rightarrow> bytes Writer \<Rightarrow> bool" where
  "written A key nonce cs x w =
     (\<exists>k. w_chunk_size w = cs \<and> w_key w = key \<and> w_nonce w = (increment_le A ^^ k) nonce \<and>
        k * cs \<le> length x \<and> length x < (k + 1) * cs \<and> w_buffer w = drop (k * cs) x \<and>
        w_inner w = enc_stream A key nonce cs (take (k * cs) x))"

lemma written_new: "0 < cs \<Longrightarrow> written A key nonce cs [] (writer_new [] key nonce cs)"
  unfolding written_def by (intro exI [of _ 0]) (simp add: writer_new_def)

lemma written_write:
  assumes "written A key nonce cs x w" "0 < cs"
  shows "\<exists>w'. writer_write A vec_sink buf w = Some (Ok (length buf), w') \<and> written A key nonce cs (x @ buf) w'"
proof -
  obtain k where k: "w_chunk_size w = cs" "w_key w = key" "w_nonce w = (increment_le A ^^ k) nonce"
    "k * cs \<le> length x" "length x < (k + 1) * cs" "w_buffer w = drop (k * cs) x"
    "w_inner w = enc_stream A key nonce cs (take (k * cs) x)"
    using assms(1) by (auto simp: written_def)
  let ?b = "drop (k * cs) x @ buf"
  define q where "q = length ?b div cs"
  have div: "length ?b - 0 = q * cs + length ?b mod cs" "length ?b mod cs < cs"
    using assms(2) by (simp_all add: q_def)
  let ?w = "w\<lparr>w_buffer := ?b, w_inner := w_inner w @ enc_stream A key (w_nonce w) cs (take (q * cs) ?b),
     w_nonce := (increment_le A ^^ q) (w_nonce w)\<rparr>"
  have loop: "write_loop A vec_sink 0 (w\<lparr>w_buffer := ?b\<rparr>) = Some (Ok (q * cs), ?w)"
    using write_loop_vec [of "w\<lparr>w_buffer := ?b\<rparr>" 0 q "length ?b mod cs" A] div assms(2) k by simp
  let ?w' = "?w\<lparr>w_buffer := drop (q * cs) ?b\<rparr>"
  have "writer_write A vec_sink buf w = Some (Ok (length buf), ?w')"
    using loop k(6) by (simp add: writer_write_def)
  moreover have "written A key nonce cs (x @ buf) ?w'"
    unfolding written_def
  proof (intro exI [of _ "q + k"] conjI)
    have len: "length (x @ buf) = k * cs + length ?b" using k(4) by simp
    then show "(q + k) * cs \<le> length (x @ buf)" "length (x @ buf) < (q + k + 1) * cs"
      using div by (simp_all add: algebra_simps)
    have tk: "take ((q + k) * cs) (x @ buf) = take (k * cs) x @ take (q * cs) ?b"
      using k(4) take_add [of "k * cs" "q * cs" "x @ buf"] by (simp add: algebra_simps)
    show "w_inner ?w' = enc_stream A key nonce cs (take ((q + k) * cs) (x @ buf))"
      unfolding tk using k(4) assms(2) enc_stream_append [of cs "take (k * cs) x" k A key nonce] by (simp add: k(3,7))
    show "w_buffer ?w' = drop ((q + k) * cs) (x @ buf)"
      using k(4) drop_drop [of "q * cs" "k * cs" "x @ buf"] by (simp add: algebra_simps)
    show "w_nonce ?w' = (increment_le A ^^ (q + k)) nonce" by (simp add: k(3) funpow_add)
  qed (simp_all add: k)
  ultimately show ?thesis by blast
qed

lemma written_flush:
  assumes "written A key nonce cs x w" "0 < cs"
  shows "\<exists>w'. writer_flush A vec_sink w = (Ok (), w') \<and> w_inner w' = enc_stream A key nonce cs x"
proof -
  obtain k where k: "w_chunk_size w = cs" "w_key w = key" "w_nonce w = (increment_le A ^^ k) nonce"
    "k * cs \<le> length x" "length x < (k + 1) * cs" "w_buffer w = drop (k * cs) x"
    "w_inner w = enc_stream A key nonce cs (take (k * cs) x)"
    using assms(1) by (auto simp: written_def)
  have split: "enc_stream A key nonce cs x =
      enc_stream A key nonce cs (take (k * cs) x) @ enc_stream A key ((increment_le A ^^ k) nonce) cs (drop (k * cs) x)"
    using enc_stream_append [of cs "take (k * cs) x" k A key nonce "drop (k * cs) x"] k(4) assms(2) by simp
  show ?thesis
  proof (cases "drop (k * cs) x = []")
    case True
    with split k show ?thesis by (simp add: writer_flush_def)
  next
    case False
    moreover have "length (drop (k * cs) x) \<le> cs" using k(4,5) by simp
    ultimately show ?thesis
      using split k by (simp add: writer_flush_def vec_sink_def encrypt_def enc_stream_short)
  qed
qed

subsection \<open>Reading the stream back\<close>

text \<open>
  The contract of the inner reader: it delivers a non-empty prefix of what is left, of at most the
  requested length, and nothing only at the end.
\<close>

locale byte_source =
  fixes src :: "'r source" and content :: "'r \<Rightarrow> bytes"
  assumes src_reads: "0 < n \<Longrightarrow> \<exists>bs r'. src r n = (Ok bs, r') \<and> content r = bs @ content r' \<and> length bs \<le> n \<and>
    (bs = [] \<longrightarrow> content r = [])"
begin

lemma read_chunk_loop_spec:
  "length got \<le> len \<Longrightarrow>
   \<exists>r'. read_chunk_loop src len got r = Some (Ok (got @ take (len - length got) (content r)), r') \<and>
     content r' = drop (len - length got) (content r)"
proof (induction "len - length got" arbitrary: got r rule: less_induct)
  case less
  show ?case
  proof (cases "length got < len")
    case False
    with less.prems have "len - length got = 0" by simp
    with False show ?thesis by (subst read_chunk_loop.simps) simp
  next
    case True
    then obtain bs r' where s: "src r (len - length got) = (Ok bs, r')" "content r = bs @ content r'"
      "length bs \<le> len - length got" "bs = [] \<longrightarrow> content r = []"
      using src_reads [of "len - length got" r] by auto
    show ?thesis
    proof (cases "bs = []")
      case True
      with s \<open>length got < len\<close> show ?thesis by (subst read_chunk_loop.simps) simp
    next
      case False
      have step: "read_chunk_loop src len got r = read_chunk_loop src len (got @ bs) r'"
        using s False True by (subst read_chunk_loop.simps) simp
      have "len - length (got @ bs) < len - length got" using False True by (cases bs) auto
      moreover have "length (got @ bs) \<le> len" using s(3) True by simp
      ultimately obtain r2 where "read_chunk_loop src len (got @ bs) r' =
          Some (Ok ((got @ bs) @ take (len - length (got @ bs)) (content r')), r2)"
        "content r2 = drop (len - length (got @ bs)) (content r')"
        using less.hyps [of "got @ bs" r'] by blast
      with step s(2,3) show ?thesis by simp
    qed
  qed
qed

text \<open>The reader stands for the bytes \<open>x\<close>: those kept from the last chunk and those still encrypted.\<close>

definition represents :: "aead \<Rightarrow> nat \<Rightarrow> 'r Reader \<Rightarrow> bytes \<Rightarrow> bool" where
  "represents A cs rd x =
     (\<exists>d. x = rest_buffer rd @ d \<and> content (r_inner rd) = enc_stream A (r_key rd) (r_nonce rd) cs d \<and>
        chunk_buffer_len rd = cs + TAGBYTES)"

lemma read_chunk_spec:
  assumes "aead_laws A" "0 < cs" "d \<noteq> []" "content (r_inner rd) = enc_stream A (r_key rd) (r_nonce rd) cs d"
    "chunk_buffer_len rd = cs + TAGBYTES"
  shows "\<exists>r'. read_chunk src rd = Some (Ok (seal A (take cs d) (r_nonce rd) (r_key rd)), rd\<lparr>r_inner := r'\<rparr>) \<and>
    content r' = enc_stream A (r_key rd) (increment_le A (r_nonce rd)) cs (drop cs d)"
proof -
  let ?c = "seal A (take cs d) (r_nonce rd) (r_key rd)"
  let ?rest = "enc_stream A (r_key rd) (increment_le A (r_nonce rd)) cs (drop cs d)"
  have es: "content (r_inner rd) = ?c @ ?rest"
    using assms(2-4) by (simp add: enc_stream.simps [of A _ _ cs d])
  have len: "length ?c = min cs (length d) + TAGBYTES" using assms(1) by (simp add: min.commute)
  have t: "take (cs + TAGBYTES) (?c @ ?rest) = ?c" "drop (cs + TAGBYTES) (?c @ ?rest) = ?rest"
    using len by (cases "cs \<le> length d"; simp add: min_def)+
  have "?c \<noteq> []" using len by (auto simp: TAGBYTES_def)
  have "\<exists>r'. read_chunk_loop src (chunk_buffer_len rd) [] (r_inner rd) = Some (Ok (take (cs + TAGBYTES) (?c @ ?rest)), r') \<and>
      content r' = drop (cs + TAGBYTES) (?c @ ?rest)"
    using read_chunk_loop_spec [of "[]" "chunk_buffer_len rd" "r_inner rd"]
    by (simp add: assms(5) es del: take_append drop_append)
  then obtain r' where "read_chunk_loop src (chunk_buffer_len rd) [] (r_inner rd) = Some (Ok ?c, r')" "content r' = ?rest"
    unfolding t by blast
  with \<open>?c \<noteq> []\<close> show ?thesis by (intro exI [of _ r']) (simp add: read_chunk_def)
qed

lemma read_loop_spec:
  assumes A: "aead_laws A" "0 < cs"
  shows "length got \<le> n \<Longrightarrow> length got < n \<longrightarrow> rest_buffer rd = [] \<Longrightarrow> n - length got \<le> length d \<Longrightarrow>
    content (r_inner rd) = enc_stream A (r_key rd) (r_nonce rd) cs d \<Longrightarrow> chunk_buffer_len rd = cs + TAGBYTES \<Longrightarrow>
    \<exists>rd'. read_loop A src n got rd = Some (Ok (got @ take (n - length got) d), rd') \<and>
      represents A cs rd' (rest_buffer rd @ drop (n - length got) d)"
proof (induction "n - length got" arbitrary: got rd d rule: less_induct)
  case less
  show ?case
  proof (cases "length got < n")
    case False
    with less.prems show ?thesis by (subst read_loop.simps) (auto simp: represents_def)
  next
    case True
    then have d: "d \<noteq> []" using less.prems(3) by auto
    obtain r' where rc: "read_chunk src rd = Some (Ok (seal A (take cs d) (r_nonce rd) (r_key rd)), rd\<lparr>r_inner := r'\<rparr>)"
      and cr: "content r' = enc_stream A (r_key rd) (increment_le A (r_nonce rd)) cs (drop cs d)"
      using read_chunk_spec [OF A d less.prems(4,5)] by blast
    let ?tc = "min (length (take cs d)) (n - length got)"
    let ?got = "got @ take ?tc (take cs d)"
    let ?rd2 = "rd\<lparr>r_inner := r', r_nonce := increment_le A (r_nonce rd)\<rparr>"
    let ?rd3 = "if length ?got = n \<and> ?tc < length (take cs d)
       then ?rd2\<lparr>rest_buffer := rest_buffer rd @ drop ?tc (take cs d)\<rparr> else ?rd2"
    have step: "read_loop A src n got rd = read_loop A src n ?got ?rd3"
      using True A rc by (subst read_loop.simps) (simp add: decrypt_def Let_def)
    have rest: "rest_buffer rd = []" using less.prems(2) True by blast
    show ?thesis
    proof (cases "n - length got \<le> cs")
      case le: True
      then have "?got = got @ take (n - length got) d" and lg: "length ?got = n"
        using True less.prems(3) by (simp_all add: min_def)
      moreover have "read_loop A src n ?got ?rd3 = Some (Ok ?got, ?rd3)"
        using lg by (subst read_loop.simps) simp
      moreover have "represents A cs ?rd3 (drop (n - length got) d)"
      proof -
        have "drop (n - length got) (take cs d @ drop cs d) = drop (n - length got) (take cs d) @ drop cs d"
          using le less.prems(3) by (subst drop_append) simp
        then have "drop (n - length got) d = drop (n - length got) (take cs d) @ drop cs d" by simp
        moreover have tc: "?tc = n - length got" using le less.prems(3) by simp
        have "rest_buffer ?rd3 = drop (n - length got) (take cs d)"
          using lg rest unfolding tc by (auto simp: not_less min_le_iff_disj)
        moreover have "r_inner ?rd3 = r'" "r_key ?rd3 = r_key rd" "r_nonce ?rd3 = increment_le A (r_nonce rd)"
          "chunk_buffer_len ?rd3 = cs + TAGBYTES"
          using less.prems(5) by simp_all
        ultimately show ?thesis
          unfolding represents_def using cr by (intro exI [of _ "drop cs d"]) (simp only: simp_thms)
      qed
      ultimately show ?thesis using step rest by simp
    next
      case gt: False
      then have cs: "cs < length d" "?tc = cs" "\<not> ?tc < length (take cs d)" using less.prems(3) by auto
      then have g: "?got = got @ take cs d" "?rd3 = ?rd2" by auto
      have lt: "n - length (got @ take cs d) < n - length got" using cs True A(2) by simp
      have n: "n - length (got @ take cs d) = n - length got - cs" using cs by simp
      have "\<exists>rd'. read_loop A src n (got @ take cs d) ?rd2 =
            Some (Ok ((got @ take cs d) @ take (n - length (got @ take cs d)) (drop cs d)), rd') \<and>
          represents A cs rd' (rest_buffer ?rd2 @ drop (n - length (got @ take cs d)) (drop cs d))"
        using gt cs less.prems(3,5) cr rest by (intro less.hyps [OF lt]) auto
      moreover have "take cs d @ take (n - length got - cs) (drop cs d) = take (n - length got) d"
        using gt take_add [of cs "n - length got - cs" d] by simp
      ultimately show ?thesis using step g gt n rest by (simp del: length_append)
    qed
  qed
qed

lemma reader_read_spec:
  assumes "aead_laws A" "0 < cs" "represents A cs rd x" "n \<le> length x"
  shows "\<exists>rd'. reader_read A src n rd = Some (Ok (take n x), rd') \<and> represents A cs rd' (drop n x)"
proof -
  obtain d where d: "x = rest_buffer rd @ d" "content (r_inner rd) = enc_stream A (r_key rd) (r_nonce rd) cs d"
    "chunk_buffer_len rd = cs + TAGBYTES" using assms(3) by (auto simp: represents_def)
  let ?tc = "min (length (rest_buffer rd)) n"
  have "\<exists>rd'. read_loop A src n (take ?tc (rest_buffer rd)) (rd\<lparr>rest_buffer := drop ?tc (rest_buffer rd)\<rparr>) =
        Some (Ok (take ?tc (rest_buffer rd) @ take (n - length (take ?tc (rest_buffer rd))) d), rd') \<and>
      represents A cs rd' (rest_buffer (rd\<lparr>rest_buffer := drop ?tc (rest_buffer rd)\<rparr>) @ drop (n - length (take ?tc (rest_buffer rd))) d)"
    using d assms(4) by (intro read_loop_spec [OF assms(1,2)]) (auto simp: min_def)
  then show ?thesis using d(1) by (cases "length (rest_buffer rd) \<le> n") (simp_all add: reader_read_def Let_def)
qed

end

text \<open>The standard library's reader over a slice of bytes.\<close>

definition slice_read :: "bytes source" where
  "slice_read r n = (Ok (take n r), drop n r)"

interpretation slice: byte_source slice_read "\<lambda>r. r"
proof
  show "\<exists>bs r'. slice_read r n = (Ok bs, r') \<and> r = bs @ r' \<and> length bs \<le> n \<and> (bs = [] \<longrightarrow> r = [])" if "0 < n" for n r
    using that by (auto simp: slice_read_def)
qed

section \<open>Properties of the chunked stream\<close>

text \<open>Sequences of calls: \<open>write\<close> with each piece in turn, and \<open>read\<close> into buffers of the given lengths.\<close>

fun write_seq :: "aead \<Rightarrow> bytes list \<Rightarrow> bytes Writer \<Rightarrow> bytes Writer option" where
  "write_seq A [] w = Some w"
| "write_seq A (d # ds) w =
     (case writer_write A vec_sink d w of Some (Ok _, w') \<Rightarrow> write_seq A ds w' | _ \<Rightarrow> None)"

fun read_seq :: "aead \<Rightarrow> nat list \<Rightarrow> bytes Reader \<Rightarrow> bytes list option" where
  "read_seq A [] rd = Some []"
| "read_seq A (n # ns) rd =
     (case reader_read A slice_read n rd of
        Some (Ok bs, rd') \<Rightarrow> map_option (\<lambda>outs. bs # outs) (read_seq A ns rd')
      | _ \<Rightarrow> None)"

lemma written_write_seq:
  "written A key nonce cs x w \<Longrightarrow> 0 < cs \<Longrightarrow> \<exists>w'. write_seq A ds w = Some w' \<and> written A key nonce cs (x @ concat ds) w'"
proof (induction ds arbitrary: x w)
  case (Cons d ds)
  obtain w1 where w1: "writer_write A vec_sink d w = Some (Ok (length d), w1)" "written A key nonce cs (x @ d) w1"
    using written_write [OF Cons.prems] by blast
  from Cons.IH [OF w1(2) Cons.prems(2)] w1(1) show ?case by simp
qed auto

lemma read_seq_spec:
  "slice.represents A cs rd x \<Longrightarrow> aead_laws A \<Longrightarrow> 0 < cs \<Longrightarrow> sum_list ns \<le> length x \<Longrightarrow>
   \<exists>outs. read_seq A ns rd = Some outs \<and> map length outs = ns \<and> concat outs = take (sum_list ns) x"
proof (induction ns arbitrary: rd x)
  case (Cons n ns)
  have n: "n \<le> length x" using Cons.prems(4) by simp
  obtain rd1 where r: "reader_read A slice_read n rd = Some (Ok (take n x), rd1)" "slice.represents A cs rd1 (drop n x)"
    using slice.reader_read_spec [OF Cons.prems(2,3,1) n] by blast
  have "sum_list ns \<le> length (drop n x)" using Cons.prems(4) by simp
  from Cons.IH [OF r(2) Cons.prems(2,3) this] obtain outs where
    o: "read_seq A ns rd1 = Some outs" "map length outs = ns" "concat outs = take (sum_list ns) (drop n x)" by blast
  then show ?case using r(1) n by (simp add: take_add)
qed simp

text \<open>
  Writing data in pieces of any sizes and flushing once produces the encrypted stream of the
  concatenated data, whatever the pieces were; every call returns, for every chunk size above zero.
\<close>

theorem writer_output:
  assumes "0 < cs"
  shows "\<exists>w w'. write_seq A ds (writer_new [] key nonce cs) = Some w \<and> writer_flush A vec_sink w = (Ok (), w') \<and>
    w_inner w' = enc_stream A key nonce cs (concat ds)"
  using written_write_seq [OF written_new [OF assms] assms, where ds = ds] written_flush [OF _ assms] by fastforce

definition plain_aead :: aead where
  "plain_aead = \<lparr>seal = (\<lambda>d n k. replicate 16 0 @ d), aead_open = (\<lambda>c n k. Some (drop 16 c)), increment_le = (\<lambda>n. n)\<rparr>"

theorem writer_output_witness:
  "0 < (2 :: nat) \<and> (\<exists>w w'. write_seq plain_aead [[1], [2, 3]] (writer_new [] [7] [9] 2) = Some w \<and>
     writer_flush plain_aead vec_sink w = (Ok (), w') \<and> w_inner w' = enc_stream plain_aead [7] [9] 2 (concat [[1], [2, 3]]))"
  using writer_output [of 2 plain_aead "[[1], [2, 3]]" "[7]" "[9]"] by simp

text \<open>
  C13: The chunked stream round-trips: what was written in any pieces is read back in pieces of any
  requested lengths, as long as no more bytes are requested than were written.
\<close>

theorem stream_roundtrip:
  assumes "aead_laws A" "0 < cs" "sum_list ns \<le> length (concat ds)"
  shows "\<exists>w w' outs. write_seq A ds (writer_new [] key nonce cs) = Some w \<and> writer_flush A vec_sink w = (Ok (), w') \<and>
    read_seq A ns (reader_new (w_inner w') key nonce cs) = Some outs \<and>
    map length outs = ns \<and> concat outs = take (sum_list ns) (concat ds)"
proof -
  obtain w where w: "write_seq A ds (writer_new [] key nonce cs) = Some w" "written A key nonce cs (concat ds) w"
    using written_write_seq [OF written_new [OF assms(2)] assms(2), where ds = ds and A = A and key = key and nonce = nonce]
    by auto
  obtain w' where w': "writer_flush A vec_sink w = (Ok (), w')" "w_inner w' = enc_stream A key nonce cs (concat ds)"
    using written_flush [OF w(2) assms(2)] by blast
  have "slice.represents A cs (reader_new (w_inner w') key nonce cs) (concat ds)"
    by (simp add: slice.represents_def reader_new_def w'(2))
  from read_seq_spec [OF this assms] w w' show ?thesis by blast
qed

theorem stream_roundtrip_witness:
  "aead_laws plain_aead \<and> (\<exists>w w' outs. write_seq plain_aead [[1], [2, 3]] (writer_new [] [7] [9] 2) = Some w \<and>
     writer_flush plain_aead vec_sink w = (Ok (), w') \<and>
     read_seq plain_aead [2, 1] (reader_new (w_inner w') [7] [9] 2) = Some outs \<and>
     map length outs = [2, 1] \<and> concat outs = take (sum_list [2, 1]) (concat [[1], [2, 3]]))"
proof -
  have l: "aead_laws plain_aead" by (simp add: aead_laws_def plain_aead_def TAGBYTES_def)
  have "sum_list [2, 1] \<le> length (concat [[1], [2, 3 :: byte]])" by simp
  from l stream_roundtrip [OF l _ this, of 2 "[7]" "[9]"] show ?thesis by simp
qed

text \<open>
  \<open>flush\<close> does not empty the buffer: a second flush of a writer with buffered bytes sends them again,
  sealed under the next nonce.
\<close>

theorem flush_twice_duplicates:
  assumes "w_buffer w \<noteq> []"
  shows "w_inner (snd (writer_flush A vec_sink (snd (writer_flush A vec_sink w)))) =
    w_inner w @ seal A (w_buffer w) (w_nonce w) (w_key w) @
      seal A (w_buffer w) (increment_le A (w_nonce w)) (w_key w)"
  using assms by (simp add: writer_flush_def vec_sink_def encrypt_def)

theorem flush_twice_duplicates_witness:
  "w_inner (snd (writer_flush plain_aead vec_sink (snd (writer_flush plain_aead vec_sink
     \<lparr>w_buffer = [5], w_chunk_size = 2, w_key = [7], w_nonce = [9], w_inner = []\<rparr>)))) =
   seal plain_aead [5] [9] [7] @ seal plain_aead [5] [9] [7]"
  using flush_twice_duplicates [of "\<lparr>w_buffer = [5], w_chunk_size = 2, w_key = [7], w_nonce = [9], w_inner = []\<rparr>" plain_aead]
  by (simp add: plain_aead_def)

end
