(* ===== verification/Wallet_Encryption.thy ===== *)
theory Wallet_Encryption
  imports Chacha_Stream Json_Value
begin

text \<open>
  Encryption of wallet data (\<open>services/wallet/encryption.rs\<close>, and \<open>Keys\<close> and \<open>EncryptedValue\<close> of
  \<open>services/wallet/wallet.rs\<close>): derivation of the master key, deterministic encryption of what is
  searched for, randomised encryption of values under a fresh key, and decryption of stored records.
  The primitives of libsodium and base58 are a record \<open>crypto\<close> of functions; random keys, nonces and
  salts are arguments. The lemmas show that everything written can be read back.
\<close>

section \<open>Primitives\<close>

datatype KeyDerivationMethod = RAW | ARGON2I_MOD | ARGON2I_INT

record crypto =
  c_aead :: aead
  hmac_auth :: "bytes \<Rightarrow> bytes \<Rightarrow> bytes"
  argon2i :: "bool \<Rightarrow> bytes \<Rightarrow> bytes \<Rightarrow> bytes option"
  base58_decode :: "string \<Rightarrow> bytes option"

text \<open>
  \<open>hmac_auth\<close> takes data and key; \<open>argon2i\<close> takes whether the limits are the moderate ones, the
  passphrase and the salt, and returns the key or fails.
\<close>

definition crypto_laws :: "crypto \<Rightarrow> bool" where
  "crypto_laws C = (aead_laws (c_aead C) \<and> (\<forall>d k. length (hmac_auth C d k) = 32))"

text \<open>The newtypes of \<open>sodium_type.rs\<close> accept byte strings of one length.\<close>

definition from_slice :: "nat \<Rightarrow> bytes \<Rightarrow> bytes IndyResult" where
  "from_slice len bs = (if length bs = len then Ok bs else Err InvalidStructure)"

definition SALTBYTES :: nat where
  "SALTBYTES = 32"

section \<open>Master keys\<close>

datatype KeyDerivationData = Raw string | Argon2iMod string bytes | Argon2iInt string bytes

datatype Metadata = MetadataArgon bytes bytes | MetadataRaw bytes

fun get_keys :: "Metadata \<Rightarrow> bytes" where
  "get_keys (MetadataArgon ks _) = ks"
| "get_keys (MetadataRaw ks) = ks"

definition master_key_salt_from_slice :: "bytes \<Rightarrow> bytes IndyResult" where
  "master_key_salt_from_slice bs =
     (case from_slice SALTBYTES bs of Ok salt \<Rightarrow> Ok salt | Err _ \<Rightarrow> Err WalletAccessFailed | Panic \<Rightarrow> Panic)"

definition from_passphrase_with_new_salt :: "bytes \<Rightarrow> string \<Rightarrow> KeyDerivationMethod \<Rightarrow> KeyDerivationData" where
  "from_passphrase_with_new_salt salt passphrase derivation_method =
     (case derivation_method of
        ARGON2I_INT \<Rightarrow> Argon2iInt passphrase salt
      | ARGON2I_MOD \<Rightarrow> Argon2iMod passphrase salt
      | RAW \<Rightarrow> Raw passphrase)"

fun from_passphrase_and_metadata ::
  "string \<Rightarrow> Metadata \<Rightarrow> KeyDerivationMethod \<Rightarrow> KeyDerivationData IndyResult" where
  "from_passphrase_and_metadata passphrase (MetadataRaw _) RAW = Ok (Raw passphrase)"
| "from_passphrase_and_metadata passphrase (MetadataArgon _ salt) ARGON2I_INT =
     bind_outcome (master_key_salt_from_slice salt) (\<lambda>s. Ok (Argon2iInt passphrase s))"
| "from_passphrase_and_metadata passphrase (MetadataArgon _ salt) ARGON2I_MOD =
     bind_outcome (master_key_salt_from_slice salt) (\<lambda>s. Ok (Argon2iMod passphrase s))"
| "from_passphrase_and_metadata passphrase _ _ = Err WalletAccessFailed"

definition pwhash :: "crypto \<Rightarrow> bytes \<Rightarrow> bytes \<Rightarrow> KeyDerivationMethod \<Rightarrow> bytes IndyResult" where
  "pwhash C passwd salt key_derivation_method =
     (case key_derivation_method of
        ARGON2I_MOD \<Rightarrow> ok_or (argon2i C True passwd salt) InvalidState
      | ARGON2I_INT \<Rightarrow> ok_or (argon2i C False passwd salt) InvalidState
      | RAW \<Rightarrow> Err InvalidStructure)"

definition derive_master_key :: "crypto \<Rightarrow> string \<Rightarrow> bytes \<Rightarrow> KeyDerivationMethod \<Rightarrow> bytes IndyResult" where
  "derive_master_key C passphrase salt key_derivation_method =
     pwhash C (into_bytes passphrase) salt key_derivation_method"

definition raw_master_key :: "crypto \<Rightarrow> string \<Rightarrow> bytes IndyResult" where
  "raw_master_key C passphrase =
     bind_outcome (ok_or (base58_decode C passphrase) InvalidStructure) (from_slice KEYBYTES)"

fun calc_master_key :: "crypto \<Rightarrow> KeyDerivationData \<Rightarrow> bytes IndyResult" where
  "calc_master_key C (Raw passphrase) = raw_master_key C passphrase"
| "calc_master_key C (Argon2iInt passphrase salt) = derive_master_key C passphrase salt ARGON2I_INT"
| "calc_master_key C (Argon2iMod passphrase salt) = derive_master_key C passphrase salt ARGON2I_MOD"

section \<open>Encryption of byte strings\<close>

definition encrypt_as_searchable :: "crypto \<Rightarrow> bytes \<Rightarrow> bytes \<Rightarrow> bytes \<Rightarrow> bytes" where
  "encrypt_as_searchable C d key hmac_key =
     (let tag = hmac_auth C d hmac_key; nonce = take NONCEBYTES tag
      in nonce @ encrypt (c_aead C) d key nonce)"

definition encrypt_as_not_searchable :: "crypto \<Rightarrow> bytes \<Rightarrow> bytes \<Rightarrow> bytes \<Rightarrow> bytes" where
  "encrypt_as_not_searchable C rnd d key =
     (let (ct, nonce) = gen_nonce_and_encrypt (c_aead C) rnd d key in nonce @ ct)"

text \<open>Slicing off the nonce panics when there are fewer bytes.\<close>

definition decrypt_merged :: "crypto \<Rightarrow> bytes \<Rightarrow> bytes \<Rightarrow> bytes IndyResult" where
  "decrypt_merged C joined_data key =
     (if length joined_data < NONCEBYTES then Panic
      else decrypt (c_aead C) (drop NONCEBYTES joined_data) key (take NONCEBYTES joined_data))"

section \<open>Keys and values\<close>

record Keys =
  type_key :: bytes
  name_key :: bytes
  value_key :: bytes
  item_hmac_key :: bytes
  tag_name_key :: bytes
  tag_value_key :: bytes
  tags_hmac_key :: bytes

text \<open>The MessagePack codec of \<open>rmp_serde\<close> is a parameter.\<close>

definition serialize_encrypted :: "crypto \<Rightarrow> (Keys \<Rightarrow> bytes option) \<Rightarrow> bytes \<Rightarrow> Keys \<Rightarrow> bytes \<Rightarrow> bytes IndyResult" where
  "serialize_encrypted C to_vec rnd keys master_key =
     bind_outcome (ok_or (to_vec keys) InvalidState)
       (\<lambda>serialized. Ok (encrypt_as_not_searchable C rnd serialized master_key))"

definition deserialize_encrypted :: "crypto \<Rightarrow> (bytes \<Rightarrow> Keys option) \<Rightarrow> bytes \<Rightarrow> bytes \<Rightarrow> Keys IndyResult" where
  "deserialize_encrypted C of_vec bs master_key =
     bind_outcome (decrypt_merged C bs master_key) (\<lambda>decrypted. ok_or (of_vec decrypted) InvalidStructure)"

record EncryptedValue =
  ev_data :: bytes
  ev_key :: bytes

definition ENCRYPTED_KEY_LEN :: nat where
  "ENCRYPTED_KEY_LEN = TAGBYTES + NONCEBYTES + KEYBYTES"

record value_rnd =
  rnd_value_key :: bytes
  rnd_data_nonce :: bytes
  rnd_key_nonce :: bytes

definition value_encrypt :: "crypto \<Rightarrow> value_rnd \<Rightarrow> string \<Rightarrow> bytes \<Rightarrow> EncryptedValue" where
  "value_encrypt C rnd d key =
     \<lparr>ev_data = encrypt_as_not_searchable C (rnd_data_nonce rnd) (into_bytes d) (rnd_value_key rnd),
      ev_key = encrypt_as_not_searchable C (rnd_key_nonce rnd) (rnd_value_key rnd) key\<rparr>"

definition value_decrypt :: "crypto \<Rightarrow> EncryptedValue \<Rightarrow> bytes \<Rightarrow> string IndyResult" where
  "value_decrypt C ev key =
     bind_outcome (decrypt_merged C (ev_key ev) key)
       (\<lambda>value_key_bytes. bind_outcome (from_slice KEYBYTES value_key_bytes)
          (\<lambda>vk. bind_outcome (decrypt_merged C (ev_data ev) vk)
             (\<lambda>bs. ok_or (from_utf8 bs) InvalidStructure)))"

definition value_to_bytes :: "EncryptedValue \<Rightarrow> bytes" where
  "value_to_bytes ev = ev_key ev @ ev_data ev"

definition value_from_bytes :: "bytes \<Rightarrow> EncryptedValue IndyResult" where
  "value_from_bytes joined_data =
     (if length joined_data < ENCRYPTED_KEY_LEN then Err InvalidStructure
      else Ok \<lparr>ev_data = drop ENCRYPTED_KEY_LEN joined_data, ev_key = take ENCRYPTED_KEY_LEN joined_data\<rparr>)"

section \<open>Tags and records\<close>

datatype Tag = TagEncrypted bytes bytes | TagPlainText bytes string

datatype StorageTagName = OfEncrypted bytes | OfPlain bytes

record StorageRecord =
  sr_id :: bytes
  sr_value :: "EncryptedValue option"
  sr_type :: "bytes option"
  sr_tags :: "Tag list option"

type_synonym Tags = "(string, string) hmap"

record WalletRecord =
  wr_type :: "string option"
  wr_id :: string
  wr_value :: "string option"
  wr_tags :: "Tags option"

definition starts_with_tilde :: "string \<Rightarrow> bool" where
  "starts_with_tilde s = (s \<noteq> [] \<and> hd s = CHR ''~'')"

definition encrypt_tag_names :: "crypto \<Rightarrow> string list \<Rightarrow> bytes \<Rightarrow> bytes \<Rightarrow> StorageTagName list" where
  "encrypt_tag_names C tag_names nkey hmac_key =
     map (\<lambda>tag_name.
            if starts_with_tilde tag_name
            then OfPlain (encrypt_as_searchable C (drop 1 (into_bytes tag_name)) nkey hmac_key)
            else OfEncrypted (encrypt_as_searchable C (into_bytes tag_name) nkey hmac_key)) tag_names"

definition encrypt_tag :: "crypto \<Rightarrow> bytes \<Rightarrow> bytes \<Rightarrow> bytes \<Rightarrow> string \<times> string \<Rightarrow> Tag" where
  "encrypt_tag C nkey vkey hmac_key = (\<lambda>(tag_name, tag_value).
     if starts_with_tilde tag_name
     then TagPlainText (encrypt_as_searchable C (drop 1 (into_bytes tag_name)) nkey hmac_key) tag_value
     else TagEncrypted (encrypt_as_searchable C (into_bytes tag_name) nkey hmac_key)
            (encrypt_as_searchable C (into_bytes tag_value) vkey hmac_key))"

definition encrypt_tags :: "crypto \<Rightarrow> Tags \<Rightarrow> bytes \<Rightarrow> bytes \<Rightarrow> bytes \<Rightarrow> Tag list" where
  "encrypt_tags C tags nkey vkey hmac_key = map (encrypt_tag C nkey vkey hmac_key) tags"

definition decrypt_text :: "crypto \<Rightarrow> bytes \<Rightarrow> bytes \<Rightarrow> string IndyResult" where
  "decrypt_text C joined key =
     (case decrypt_merged C joined key of
        Err _ \<Rightarrow> Err WalletEncryptionError
      | Panic \<Rightarrow> Panic
      | Ok bs \<Rightarrow> ok_or (from_utf8 bs) WalletEncryptionError)"

fun decrypt_tag :: "crypto \<Rightarrow> bytes \<Rightarrow> bytes \<Rightarrow> Tag \<Rightarrow> (string \<times> string) IndyResult" where
  "decrypt_tag C nkey vkey (TagPlainText ename v) =
     bind_outcome (decrypt_text C ename nkey) (\<lambda>name. Ok (''~'' @ name, v))"
| "decrypt_tag C nkey vkey (TagEncrypted ename evalue) =
     bind_outcome (decrypt_text C ename nkey)
       (\<lambda>name. bind_outcome (decrypt_text C evalue vkey) (\<lambda>v. Ok (name, v)))"

fun decrypt_tags_loop :: "crypto \<Rightarrow> bytes \<Rightarrow> bytes \<Rightarrow> Tag list \<Rightarrow> Tags \<Rightarrow> Tags IndyResult" where
  "decrypt_tags_loop C nkey vkey [] tags = Ok tags"
| "decrypt_tags_loop C nkey vkey (etag # etags) tags =
     bind_outcome (decrypt_tag C nkey vkey etag)
       (\<lambda>(name, v). decrypt_tags_loop C nkey vkey etags (hmap_insert name v tags))"

fun decrypt_tags :: "crypto \<Rightarrow> Tag list option \<Rightarrow> bytes \<Rightarrow> bytes \<Rightarrow> Tags option IndyResult" where
  "decrypt_tags C None nkey vkey = Ok None"
| "decrypt_tags C (Some etags) nkey vkey =
     bind_outcome (decrypt_tags_loop C nkey vkey etags []) (\<lambda>tags. Ok (Some tags))"

definition decrypt_storage_record :: "crypto \<Rightarrow> StorageRecord \<Rightarrow> Keys \<Rightarrow> WalletRecord IndyResult" where
  "decrypt_storage_record C r keys =
     bind_outcome (decrypt_merged C (sr_id r) (name_key keys))
       (\<lambda>name_bytes. bind_outcome (ok_or (from_utf8 name_bytes) WalletEncryptionError)
       (\<lambda>name. bind_outcome
          (case sr_value r of
             Some v \<Rightarrow> bind_outcome (value_decrypt C v (value_key keys)) (\<lambda>s. Ok (Some s))
           | None \<Rightarrow> Ok None)
       (\<lambda>v. bind_outcome
          (case sr_type r of
             Some t \<Rightarrow> bind_outcome (decrypt_merged C t (type_key keys))
               (\<lambda>bs. bind_outcome (ok_or (from_utf8 bs) WalletEncryptionError) (\<lambda>s. Ok (Some s)))
           | None \<Rightarrow> Ok None)
       (\<lambda>t. bind_outcome (decrypt_tags C (sr_tags r) (tag_name_key keys) (tag_value_key keys))
       (\<lambda>tags. Ok \<lparr>wr_type = t, wr_id = name, wr_value = v, wr_tags = tags\<rparr>)))))"

section \<open>Round trips\<close>

lemma decrypt_merged_nonce:
  "aead_laws (c_aead C) \<Longrightarrow> length nonce = NONCEBYTES \<Longrightarrow> decrypt_merged C (nonce @ seal (c_aead C) d nonce key) key = Ok d"
  by (simp add: decrypt_merged_def decrypt_def)

lemma crypto_laws_aead: "crypto_laws C \<Longrightarrow> aead_laws (c_aead C)"
  by (simp add: crypto_laws_def)

lemma searchable_roundtrip:
  assumes "crypto_laws C"
  shows "decrypt_merged C (encrypt_as_searchable C d key hmac_key) key = Ok d"
proof -
  have "length (take NONCEBYTES (hmac_auth C d hmac_key)) = NONCEBYTES"
    using assms by (simp add: crypto_laws_def NONCEBYTES_def)
  with crypto_laws_aead [OF assms] show ?thesis
    by (simp add: encrypt_as_searchable_def encrypt_def Let_def decrypt_merged_nonce del: length_take)
qed

lemma searchable_eq [simp]:
  "crypto_laws C \<Longrightarrow> encrypt_as_searchable C d key hmac_key = encrypt_as_searchable C d' key hmac_key \<longleftrightarrow> d = d'"
  by (metis searchable_roundtrip outcome.inject(1))

lemma not_searchable_roundtrip:
  "crypto_laws C \<Longrightarrow> length rnd = NONCEBYTES \<Longrightarrow> decrypt_merged C (encrypt_as_not_searchable C rnd d key) key = Ok d"
  using crypto_laws_aead
  by (simp add: encrypt_as_not_searchable_def gen_nonce_and_encrypt_def decrypt_merged_nonce)

lemma value_roundtrip:
  assumes "crypto_laws C" "utf8 d" "length (rnd_value_key rnd) = KEYBYTES"
    "length (rnd_data_nonce rnd) = NONCEBYTES" "length (rnd_key_nonce rnd) = NONCEBYTES"
  shows "value_decrypt C (value_encrypt C rnd d key) key = Ok d"
  using assms
  by (simp add: value_decrypt_def value_encrypt_def not_searchable_roundtrip from_slice_def from_utf8_into_bytes)

lemma value_bytes_roundtrip: "length (ev_key ev) = ENCRYPTED_KEY_LEN \<Longrightarrow> value_from_bytes (value_to_bytes ev) = Ok ev"
  by (simp add: value_from_bytes_def value_to_bytes_def)

lemma value_encrypt_key_len:
  "crypto_laws C \<Longrightarrow> length (rnd_value_key rnd) = KEYBYTES \<Longrightarrow> length (rnd_key_nonce rnd) = NONCEBYTES \<Longrightarrow>
   length (ev_key (value_encrypt C rnd d key)) = ENCRYPTED_KEY_LEN"
  using crypto_laws_aead
  by (simp add: value_encrypt_def encrypt_as_not_searchable_def gen_nonce_and_encrypt_def ENCRYPTED_KEY_LEN_def)

lemma decrypt_text_searchable:
  "crypto_laws C \<Longrightarrow> utf8 s \<Longrightarrow> decrypt_text C (encrypt_as_searchable C (into_bytes s) key hk) key = Ok s"
  by (simp add: decrypt_text_def searchable_roundtrip from_utf8_into_bytes)

lemma drop_into_bytes: "drop n (into_bytes s) = into_bytes (drop n s)"
  by (simp add: into_bytes_def drop_map)

lemma utf8_drop_tilde: "starts_with_tilde s \<Longrightarrow> utf8 s \<Longrightarrow> utf8 (drop 1 s) \<and> ''~'' @ drop 1 s = s"
  by (cases s) (auto simp: starts_with_tilde_def utf8_def)

definition utf8_tags :: "Tags \<Rightarrow> bool" where
  "utf8_tags tags = list_all (\<lambda>(n, v). utf8 n \<and> utf8 v) tags"

lemma decrypt_tag_roundtrip:
  "crypto_laws C \<Longrightarrow> utf8 n \<Longrightarrow> utf8 v \<Longrightarrow> decrypt_tag C nk vk (encrypt_tag C nk vk hk (n, v)) = Ok (n, v)"
  using utf8_drop_tilde [of n]
  by (auto simp: encrypt_tag_def decrypt_text_searchable drop_into_bytes)

lemma hmap_insert_new: "k \<notin> fst ` set m \<Longrightarrow> hmap_insert k v m = m @ [(k, v)]"
  by (induction m) auto

lemma decrypt_tags_loop_roundtrip:
  "crypto_laws C \<Longrightarrow> utf8_tags tags \<Longrightarrow> hmap_ok (acc @ tags) \<Longrightarrow>
   decrypt_tags_loop C nk vk (encrypt_tags C tags nk vk hk) acc = Ok (acc @ tags)"
proof (induction tags arbitrary: acc)
  case (Cons t tags)
  obtain n v where t: "t = (n, v)" by (cases t)
  with Cons.prems have "utf8 n" "utf8 v" "n \<notin> fst ` set acc" by (auto simp: utf8_tags_def)
  with Cons.IH [of "acc @ [(n, v)]"] Cons.prems t show ?case
    by (simp add: encrypt_tags_def decrypt_tag_roundtrip hmap_insert_new utf8_tags_def)
qed (simp add: encrypt_tags_def)

lemma tags_roundtrip:
  "crypto_laws C \<Longrightarrow> utf8_tags tags \<Longrightarrow> hmap_ok tags \<Longrightarrow>
   decrypt_tags C (Some (encrypt_tags C tags nk vk hk)) nk vk = Ok (Some tags)"
  using decrypt_tags_loop_roundtrip [of C tags "[]"] by simp

section \<open>Properties\<close>

text \<open>
  C14: Reading back a stored record gives the record: the name, type, value and tags that were
  encrypted with the wallet keys, for every choice of the random value key and nonces.
\<close>

theorem record_roundtrip:
  assumes "crypto_laws C" "utf8 name" "utf8 ty" "utf8 v" "utf8_tags tags" "hmap_ok tags"
    "length (rnd_value_key rnd) = KEYBYTES" "length (rnd_data_nonce rnd) = NONCEBYTES" "length (rnd_key_nonce rnd) = NONCEBYTES"
  shows "decrypt_storage_record C
    \<lparr>sr_id = encrypt_as_searchable C (into_bytes name) (name_key keys) (item_hmac_key keys),
     sr_value = Some (value_encrypt C rnd v (value_key keys)),
     sr_type = Some (encrypt_as_searchable C (into_bytes ty) (type_key keys) (item_hmac_key keys)),
     sr_tags = Some (encrypt_tags C tags (tag_name_key keys) (tag_value_key keys) (tags_hmac_key keys))\<rparr> keys =
    Ok \<lparr>wr_type = Some ty, wr_id = name, wr_value = Some v, wr_tags = Some tags\<rparr>"
  using assms
  by (simp add: decrypt_storage_record_def searchable_roundtrip from_utf8_into_bytes value_roundtrip tags_roundtrip
      del: decrypt_tags.simps)

definition plain_crypto :: crypto where
  "plain_crypto = \<lparr>c_aead = plain_aead, hmac_auth = (\<lambda>d k. replicate 32 0),
     argon2i = (\<lambda>m pw s. Some (replicate 32 0)), base58_decode = (\<lambda>s. Some [])\<rparr>"

lemma plain_crypto_laws: "crypto_laws plain_crypto"
  by (simp add: crypto_laws_def plain_crypto_def aead_laws_def plain_aead_def TAGBYTES_def)

definition zero_keys :: Keys where
  "zero_keys = \<lparr>type_key = replicate 32 1, name_key = replicate 32 2, value_key = replicate 32 3,
     item_hmac_key = replicate 32 4, tag_name_key = replicate 32 5, tag_value_key = replicate 32 6,
     tags_hmac_key = replicate 32 7\<rparr>"

definition zero_rnd :: value_rnd where
  "zero_rnd = \<lparr>rnd_value_key = replicate 32 0, rnd_data_nonce = replicate 12 0, rnd_key_nonce = replicate 12 1\<rparr>"

theorem record_roundtrip_witness:
  "decrypt_storage_record plain_crypto
    \<lparr>sr_id = encrypt_as_searchable plain_crypto (into_bytes ''id'') (name_key zero_keys) (item_hmac_key zero_keys),
     sr_value = Some (value_encrypt plain_crypto zero_rnd ''v'' (value_key zero_keys)),
     sr_type = Some (encrypt_as_searchable plain_crypto (into_bytes ''t'') (type_key zero_keys) (item_hmac_key zero_keys)),
     sr_tags = Some (encrypt_tags plain_crypto [(''a'', ''1''), (''~b'', ''2'')] (tag_name_key zero_keys) (tag_value_key zero_keys)
       (tags_hmac_key zero_keys))\<rparr> zero_keys =
    Ok \<lparr>wr_type = Some ''t'', wr_id = ''id'', wr_value = Some ''v'', wr_tags = Some [(''a'', ''1''), (''~b'', ''2'')]\<rparr>"
proof -
  have "utf8 ''id''" "utf8 ''t''" "utf8 ''v''" "utf8_tags [(''a'', ''1''), (''~b'', ''2'')]" "hmap_ok [(''a'', ''1''), (''~b'', ''2'')]"
    by code_simp+
  moreover have "length (rnd_value_key zero_rnd) = KEYBYTES" "length (rnd_data_nonce zero_rnd) = NONCEBYTES"
    "length (rnd_key_nonce zero_rnd) = NONCEBYTES" by code_simp+
  ultimately show ?thesis by (rule record_roundtrip [OF plain_crypto_laws])
qed

text \<open>
  A value produced by the wallet survives the storage format: splitting the joined bytes after the
  fixed length of the encrypted key restores the two parts, and they decrypt to the value.
\<close>

theorem stored_value_roundtrip:
  assumes "crypto_laws C" "utf8 v" "length (rnd_value_key rnd) = KEYBYTES"
    "length (rnd_data_nonce rnd) = NONCEBYTES" "length (rnd_key_nonce rnd) = NONCEBYTES"
  shows "bind_outcome (value_from_bytes (value_to_bytes (value_encrypt C rnd v key))) (\<lambda>ev. value_decrypt C ev key) = Ok v"
  using value_bytes_roundtrip [OF value_encrypt_key_len [OF assms(1,3,5)]] value_roundtrip [OF assms] by simp

theorem stored_value_roundtrip_witness:
  "bind_outcome (value_from_bytes (value_to_bytes (value_encrypt plain_crypto zero_rnd ''secret'' [8])))
     (\<lambda>ev. value_decrypt plain_crypto ev [8]) = Ok ''secret''"
proof -
  have "utf8 ''secret''" "length (rnd_value_key zero_rnd) = KEYBYTES" "length (rnd_data_nonce zero_rnd) = NONCEBYTES"
    "length (rnd_key_nonce zero_rnd) = NONCEBYTES" by code_simp+
  then show ?thesis by (rule stored_value_roundtrip [OF plain_crypto_laws])
qed

text \<open>
  Decrypting a joined byte string panics exactly when it is shorter than a nonce; a longer one is
  decrypted or reported as \<open>InvalidStructure\<close>.
\<close>

theorem decrypt_merged_outcomes:
  "if length bs < NONCEBYTES then decrypt_merged C bs key = Panic
   else decrypt_merged C bs key \<in> {Err InvalidStructure} \<union> range Ok"
  by (auto simp: decrypt_merged_def decrypt_def ok_or_def split: option.splits)

section \<open>Metadata of a wallet\<close>

text \<open>
  The metadata is stored as JSON text. Which JSON value each variant becomes, and how the untagged enum
  is read back from a JSON value, is modelled; the printer and the parser of JSON text are the
  parameters \<open>json_to_vec\<close> and \<open>json_from_slice\<close>.
\<close>

definition bytes_to_json :: "bytes \<Rightarrow> json" where
  "bytes_to_json bs = JArray (map (\<lambda>b. JNumber (PosInt (unat b))) bs)"

fun byte_from_json :: "json \<Rightarrow> byte option" where
  "byte_from_json (JNumber (PosInt n)) = (if n < 256 then Some (word_of_nat n) else None)"
| "byte_from_json _ = None"

fun bytes_from_json :: "json \<Rightarrow> bytes option" where
  "bytes_from_json (JArray xs) = those (map byte_from_json xs)"
| "bytes_from_json _ = None"

fun metadata_to_json :: "Metadata \<Rightarrow> json" where
  "metadata_to_json (MetadataArgon ks salt) = JObject [(''keys'', bytes_to_json ks), (''master_key_salt'', bytes_to_json salt)]"
| "metadata_to_json (MetadataRaw ks) = JObject [(''keys'', bytes_to_json ks)]"

text \<open>
  A field of a struct must occur once, and unknown fields are skipped; a struct may also be written as
  an array of its fields. Of the untagged variants, the first that can be read is taken.
\<close>

definition the_field :: "string \<Rightarrow> (string \<times> json) list \<Rightarrow> json option" where
  "the_field f kvs = (case filter (\<lambda>(k, _). k = f) kvs of [(_, v)] \<Rightarrow> Some v | _ \<Rightarrow> None)"

definition both_fields :: "bytes option \<Rightarrow> bytes option \<Rightarrow> Metadata option" where
  "both_fields ks salt = (case (ks, salt) of (Some ks, Some salt) \<Rightarrow> Some (MetadataArgon ks salt) | _ \<Rightarrow> None)"

fun argon_from_json :: "json \<Rightarrow> Metadata option" where
  "argon_from_json (JObject kvs) =
     both_fields (Option.bind (the_field ''keys'' kvs) bytes_from_json) (Option.bind (the_field ''master_key_salt'' kvs) bytes_from_json)"
| "argon_from_json (JArray [k, s]) = both_fields (bytes_from_json k) (bytes_from_json s)"
| "argon_from_json _ = None"

fun raw_from_json :: "json \<Rightarrow> Metadata option" where
  "raw_from_json (JObject kvs) = map_option MetadataRaw (Option.bind (the_field ''keys'' kvs) bytes_from_json)"
| "raw_from_json (JArray [k]) = map_option MetadataRaw (bytes_from_json k)"
| "raw_from_json _ = None"

definition metadata_from_json :: "json \<Rightarrow> Metadata option" where
  "metadata_from_json j = (case argon_from_json j of Some m \<Rightarrow> Some m | None \<Rightarrow> raw_from_json j)"

text \<open>
  The metadata \<open>WalletService::_prepare_metadata\<close> writes for a wallet (\<open>services/wallet/mod.rs\<close>), and how
  \<open>_open_storage_and_fetch_metadata\<close> reads it.
\<close>

definition prepare_metadata ::
  "crypto \<Rightarrow> (Keys \<Rightarrow> bytes option) \<Rightarrow> (json \<Rightarrow> bytes option) \<Rightarrow> bytes \<Rightarrow> bytes \<Rightarrow> KeyDerivationData \<Rightarrow> Keys \<Rightarrow>
    bytes IndyResult" where
  "prepare_metadata C to_vec json_to_vec rnd master_key key_data keys =
     bind_outcome (serialize_encrypted C to_vec rnd keys master_key)
       (\<lambda>encrypted_keys.
          let metadata = (case key_data of
                 Raw _ \<Rightarrow> MetadataRaw encrypted_keys
               | Argon2iInt _ salt \<Rightarrow> MetadataArgon encrypted_keys salt
               | Argon2iMod _ salt \<Rightarrow> MetadataArgon encrypted_keys salt)
          in ok_or (json_to_vec (metadata_to_json metadata)) InvalidState)"

definition read_metadata :: "(bytes \<Rightarrow> json option) \<Rightarrow> bytes \<Rightarrow> Metadata IndyResult" where
  "read_metadata json_from_slice bs = ok_or (Option.bind (json_from_slice bs) metadata_from_json) InvalidState"

definition restore_keys :: "crypto \<Rightarrow> (bytes \<Rightarrow> Keys option) \<Rightarrow> Metadata \<Rightarrow> bytes \<Rightarrow> Keys IndyResult" where
  "restore_keys C of_vec metadata master_key =
     (case deserialize_encrypted C of_vec (get_keys metadata) master_key of
        Ok keys \<Rightarrow> Ok keys
      | Err _ \<Rightarrow> Err WalletAccessFailed
      | Panic \<Rightarrow> Panic)"

lemma byte_back: "byte_from_json (JNumber (PosInt (unat b))) = Some b"
  using unsigned_less [of b] by simp

lemma bytes_back [simp]: "bytes_from_json (bytes_to_json bs) = Some bs"
proof -
  have "those (map (\<lambda>b. byte_from_json (JNumber (PosInt (unat b)))) bs) = Some bs"
    by (induction bs) (simp_all only: byte_back list.map those.simps option.case option.map)
  then show ?thesis by (simp add: bytes_to_json_def comp_def)
qed

lemma metadata_back [simp]: "metadata_from_json (metadata_to_json m) = Some m"
  by (cases m) (simp_all add: metadata_from_json_def the_field_def both_fields_def)

text \<open>
  C29: A wallet opens again with the passphrase it was created with. The bytes written at creation are
  read back as metadata, from it and the passphrase the key derivation data gives the same master key,
  and with that key the wallet keys are restored. The JSON printer and parser are taken to read back
  what they wrote of a metadata value, and the serialisation of the keys likewise.
\<close>

theorem reopen_with_same_passphrase:
  assumes "crypto_laws C" "to_vec keys = Some bs" "of_vec bs = Some keys"
    and json: "\<And>m. \<exists>written. json_to_vec (metadata_to_json m) = Some written \<and> json_from_slice written = Some (metadata_to_json m)"
    and salt: "length salt = SALTBYTES" "length rnd = NONCEBYTES"
    and key: "key_data = from_passphrase_with_new_salt salt passphrase derivation_method" "calc_master_key C key_data = Ok master_key"
  shows "\<exists>stored metadata key_data'. prepare_metadata C to_vec json_to_vec rnd master_key key_data keys = Ok stored \<and>
    read_metadata json_from_slice stored = Ok metadata \<and>
    from_passphrase_and_metadata passphrase metadata derivation_method = Ok key_data' \<and>
    calc_master_key C key_data' = Ok master_key \<and> restore_keys C of_vec metadata master_key = Ok keys"
proof -
  obtain ks where ks: "serialize_encrypted C to_vec rnd keys master_key = Ok ks"
    "deserialize_encrypted C of_vec ks master_key = Ok keys"
    using assms(1-3) salt(2) by (simp add: serialize_encrypted_def deserialize_encrypted_def not_searchable_roundtrip)
  obtain m where m: "m = (case key_data of Raw _ \<Rightarrow> MetadataRaw ks | Argon2iInt _ s \<Rightarrow> MetadataArgon ks s | Argon2iMod _ s \<Rightarrow> MetadataArgon ks s)"
    by simp
  from json obtain written where written: "json_to_vec (metadata_to_json m) = Some written" "json_from_slice written = Some (metadata_to_json m)"
    by blast
  have "prepare_metadata C to_vec json_to_vec rnd master_key key_data keys = Ok written"
    using ks(1) written(1) by (simp add: prepare_metadata_def m)
  moreover have "read_metadata json_from_slice written = Ok m" using written(2) by (simp add: read_metadata_def)
  moreover have "from_passphrase_and_metadata passphrase m derivation_method = Ok key_data"
    using salt(1) key(1)
    by (cases derivation_method)
      (simp_all add: m from_passphrase_with_new_salt_def master_key_salt_from_slice_def from_slice_def)
  moreover have "restore_keys C of_vec m master_key = Ok keys"
    using ks(2) by (cases key_data) (simp_all add: m restore_keys_def)
  ultimately show ?thesis using key(2) by blast
qed

text \<open>
  A printer and a parser for the metadata values, for a concrete run: each list of bytes is written
  with a \<open>1\<close> before every byte and a \<open>0\<close> at the end, and a lone \<open>2\<close> stands for a missing salt.
\<close>

fun tagged :: "bytes \<Rightarrow> bytes" where
  "tagged [] = [0]"
| "tagged (b # bs) = 1 # b # tagged bs"

fun untagged :: "bytes \<Rightarrow> bytes \<times> bytes" where
  "untagged (x # b # r) = (if x = 1 then (let (bs, r') = untagged r in (b # bs, r')) else ([], b # r))"
| "untagged _ = ([], [])"

lemma untagged_tagged [simp]: "untagged (tagged bs @ r) = (bs, r)"
proof (induction bs)
  case Nil
  show ?case by (cases r) simp_all
qed simp

lemma untagged_end [simp]: "untagged (tagged bs) = (bs, [])"
  using untagged_tagged [of bs "[]"] by simp

lemma tagged_not_2 [simp]: "tagged bs \<noteq> [2]"
  by (cases bs) simp_all

definition sample_printer :: "json \<Rightarrow> bytes option" where
  "sample_printer j =
     (case metadata_from_json j of
        Some (MetadataArgon ks salt) \<Rightarrow> Some (tagged ks @ tagged salt)
      | Some (MetadataRaw ks) \<Rightarrow> Some (tagged ks @ [2])
      | None \<Rightarrow> None)"

definition sample_parser :: "bytes \<Rightarrow> json option" where
  "sample_parser bs =
     (let (ks, r) = untagged bs
      in Some (metadata_to_json (if r = [2] then MetadataRaw ks else MetadataArgon ks (fst (untagged r)))))"

lemma sample_json:
  "\<exists>written. sample_printer (metadata_to_json m) = Some written \<and> sample_parser written = Some (metadata_to_json m)"
  by (cases m) (simp_all add: sample_printer_def sample_parser_def del: metadata_to_json.simps)

theorem reopen_with_same_passphrase_witness:
  "\<exists>stored metadata key_data'. prepare_metadata plain_crypto (\<lambda>_. Some [1]) sample_printer (replicate 12 0) (replicate 32 0)
      (from_passphrase_with_new_salt (replicate 32 3) ''pass'' ARGON2I_INT) zero_keys = Ok stored \<and>
    read_metadata sample_parser stored = Ok metadata \<and>
    from_passphrase_and_metadata ''pass'' metadata ARGON2I_INT = Ok key_data' \<and>
    calc_master_key plain_crypto key_data' = Ok (replicate 32 0) \<and>
    restore_keys plain_crypto (\<lambda>_. Some zero_keys) metadata (replicate 32 0) = Ok zero_keys"
proof (rule reopen_with_same_passphrase [OF plain_crypto_laws _ _ sample_json _ _ refl])
  show "calc_master_key plain_crypto (from_passphrase_with_new_salt (replicate 32 3) ''pass'' ARGON2I_INT) = Ok (replicate 32 0)"
    by code_simp
qed (simp_all add: SALTBYTES_def NONCEBYTES_def)

end
