(* ===== verification/Query_Encryption.thy ===== *)
theory Query_Encryption
  imports Wallet_Language Wallet_Encryption
begin

text \<open>
  Encryption of a query (\<open>services/wallet/query_encryption.rs\<close>): the leaves of the operator tree are
  encrypted with the keys that encrypt tags. The lemmas show that every query of the parser is
  encrypted without an error, and that the encrypted query selects an encrypted record exactly when
  the query selects the record.
\<close>

section \<open>Encrypting operators\<close>

fun encrypt_name_value :: "crypto \<Rightarrow> Keys \<Rightarrow> TagName \<Rightarrow> TargetValue \<Rightarrow> (TagName \<times> TargetValue) IndyResult" where
  "encrypt_name_value C keys (EncryptedTagName name) (Unencrypted s) =
     Ok (EncryptedTagName (encrypt_as_searchable C name (tag_name_key keys) (tags_hmac_key keys)),
         Encrypted (encrypt_as_searchable C (into_bytes s) (tag_value_key keys) (tags_hmac_key keys)))"
| "encrypt_name_value C keys (PlainTagName name) (Unencrypted s) =
     Ok (PlainTagName (encrypt_as_searchable C name (tag_name_key keys) (tags_hmac_key keys)), Unencrypted s)"
| "encrypt_name_value C keys _ _ = Err WalletQueryError"

fun encrypt_in_name :: "crypto \<Rightarrow> Keys \<Rightarrow> TagName \<Rightarrow> TagName" where
  "encrypt_in_name C keys (EncryptedTagName name) =
     EncryptedTagName (encrypt_as_searchable C name (tag_name_key keys) (tags_hmac_key keys))"
| "encrypt_in_name C keys (PlainTagName name) =
     PlainTagName (encrypt_as_searchable C name (tag_name_key keys) (tags_hmac_key keys))"

fun encrypt_operator :: "crypto \<Rightarrow> Keys \<Rightarrow> Operator \<Rightarrow> Operator IndyResult" where
  "encrypt_operator C keys (Eq n v) = bind_outcome (encrypt_name_value C keys n v) (\<lambda>(n', v'). Ok (Eq n' v'))"
| "encrypt_operator C keys (Neq n v) = bind_outcome (encrypt_name_value C keys n v) (\<lambda>(n', v'). Ok (Neq n' v'))"
| "encrypt_operator C keys (Gt n v) = bind_outcome (encrypt_name_value C keys n v) (\<lambda>(n', v'). Ok (Gt n' v'))"
| "encrypt_operator C keys (Gte n v) = bind_outcome (encrypt_name_value C keys n v) (\<lambda>(n', v'). Ok (Gte n' v'))"
| "encrypt_operator C keys (Lt n v) = bind_outcome (encrypt_name_value C keys n v) (\<lambda>(n', v'). Ok (Lt n' v'))"
| "encrypt_operator C keys (Lte n v) = bind_outcome (encrypt_name_value C keys n v) (\<lambda>(n', v'). Ok (Lte n' v'))"
| "encrypt_operator C keys (Like n v) = bind_outcome (encrypt_name_value C keys n v) (\<lambda>(n', v'). Ok (Like n' v'))"
| "encrypt_operator C keys (In n vs) =
     (let name = encrypt_in_name C keys n
      in bind_outcome (map_outcome (\<lambda>v. bind_outcome (encrypt_name_value C keys name v) (\<lambda>p. Ok (snd p))) vs)
           (\<lambda>encrypted_values. Ok (In name encrypted_values)))"
| "encrypt_operator C keys op = Ok op"

definition encrypt_query :: "crypto \<Rightarrow> Operator \<Rightarrow> Keys \<Rightarrow> Operator IndyResult" where
  "encrypt_query C op keys = transform op (encrypt_operator C keys)"

section \<open>Tags seen by a query\<close>

definition user_tag :: "string \<times> string \<Rightarrow> TagName \<times> TargetValue" where
  "user_tag = (\<lambda>(n, v).
     (if starts_with_tilde n then PlainTagName (drop 1 (into_bytes n)) else EncryptedTagName (into_bytes n), Unencrypted v))"

definition user_view :: "Tags \<Rightarrow> tag_view" where
  "user_view tags = map user_tag tags"

fun stored_tag :: "Tag \<Rightarrow> TagName \<times> TargetValue" where
  "stored_tag (TagEncrypted n v) = (EncryptedTagName n, Encrypted v)"
| "stored_tag (TagPlainText n v) = (PlainTagName n, Unencrypted v)"

definition stored_view :: "Tag list \<Rightarrow> tag_view" where
  "stored_view etags = map stored_tag etags"

text \<open>What encryption does to a pair of a tag name and a plaintext value.\<close>

fun enc_val :: "crypto \<Rightarrow> Keys \<Rightarrow> TagName \<Rightarrow> TargetValue \<Rightarrow> TargetValue" where
  "enc_val C keys (EncryptedTagName _) (Unencrypted s) =
     Encrypted (encrypt_as_searchable C (into_bytes s) (tag_value_key keys) (tags_hmac_key keys))"
| "enc_val C keys _ v = v"

lemma encrypt_name_value_eq:
  "plain_value v \<Longrightarrow> encrypt_name_value C keys n v = Ok (encrypt_in_name C keys n, enc_val C keys n v)"
  by (cases n; cases v) auto

lemma enc_val_name [simp]: "enc_val C keys (encrypt_in_name C keys n) v = enc_val C keys n v"
  by (cases n; cases v) auto

lemma encrypt_in_name_eq [simp]: "crypto_laws C \<Longrightarrow> encrypt_in_name C keys n = encrypt_in_name C keys m \<longleftrightarrow> n = m"
  by (cases n; cases m) auto

lemma enc_val_eq [simp]:
  "crypto_laws C \<Longrightarrow> plain_value v \<Longrightarrow> plain_value w \<Longrightarrow> enc_val C keys n v = enc_val C keys n w \<longleftrightarrow> v = w"
  by (cases n; cases v; cases w) auto

lemma enc_val_plain_name: "plain_name n \<Longrightarrow> enc_val C keys n v = v"
  by (cases n) auto

lemma stored_view_encrypt:
  "stored_view (encrypt_tags C tags (tag_name_key keys) (tag_value_key keys) (tags_hmac_key keys)) =
   map (\<lambda>(n, v). (encrypt_in_name C keys n, enc_val C keys n v)) (user_view tags)"
  by (auto simp: stored_view_def encrypt_tags_def user_view_def user_tag_def encrypt_tag_def)

lemma user_view_plain: "(n, v) \<in> set (user_view tags) \<Longrightarrow> plain_value v"
  by (auto simp: user_view_def user_tag_def split: if_splits)

lemma some_tag_encrypted:
  assumes "crypto_laws C" "\<And>v. plain_value v \<Longrightarrow> Q (enc_val C keys n v) = P v"
  shows "some_tag (stored_view (encrypt_tags C tags (tag_name_key keys) (tag_value_key keys) (tags_hmac_key keys)))
    (encrypt_in_name C keys n) Q = some_tag (user_view tags) n P"
proof -
  have "(m = n \<and> Q (enc_val C keys m v)) = (m = n \<and> P v)" if "(m, v) \<in> set (user_view tags)" for m v
    using that assms(2) [of v] user_view_plain by blast
  then show ?thesis
    unfolding some_tag_def stored_view_encrypt list_ex_iff set_map
    using assms(1) by (force simp: split_beta)
qed

lemma map_enc_values:
  "list_all plain_value vs \<Longrightarrow>
   map_outcome (\<lambda>v. bind_outcome (encrypt_name_value C keys (encrypt_in_name C keys n) v) (\<lambda>p. Ok (snd p))) vs =
   Ok (map (enc_val C keys n) vs)"
  by (induction vs) (simp_all add: encrypt_name_value_eq)

lemma enc_val_mem:
  "crypto_laws C \<Longrightarrow> list_all plain_value vs \<Longrightarrow> plain_value w \<Longrightarrow>
   enc_val C keys n w \<in> set (map (enc_val C keys n) vs) \<longleftrightarrow> w \<in> set vs"
  by (induction vs) auto

section \<open>The encrypted query\<close>

lemma transform_list:
  "(\<And>op. op \<in> set ops \<Longrightarrow> \<exists>op'. transform op f = Ok op' \<and> Q op op') \<Longrightarrow>
   \<exists>ops'. map_outcome (\<lambda>op. transform op f) ops = Ok ops' \<and> list_all2 Q ops ops'"
  by (induction ops) force+

lemma list_all2_ex: "list_all2 (\<lambda>x y. P y = Q x) xs ys \<Longrightarrow> list_all P ys = list_all Q xs \<and> list_ex P ys = list_ex Q xs"
  by (induction rule: list_all2_induct) auto

lemma encrypt_query_meaning:
  assumes "crypto_laws C" "plain_query op"
  shows "\<exists>op'. encrypt_query C op keys = Ok op' \<and>
    (\<forall>tags. holds lk (stored_view (encrypt_tags C tags (tag_name_key keys) (tag_value_key keys) (tags_hmac_key keys))) op' =
       holds lk (user_view tags) op)"
  using assms(2) unfolding encrypt_query_def
proof (induction op)
  case (And ops)
  let ?Q = "\<lambda>op op'. \<forall>tags. holds lk (stored_view (encrypt_tags C tags (tag_name_key keys) (tag_value_key keys) (tags_hmac_key keys))) op' =
       holds lk (user_view tags) op"
  have "\<exists>ops'. map_outcome (\<lambda>op. transform op (encrypt_operator C keys)) ops = Ok ops' \<and> list_all2 ?Q ops ops'"
    using And by (intro transform_list) (auto simp: list_all_iff)
  then obtain ops' where o: "map_outcome (\<lambda>op. transform op (encrypt_operator C keys)) ops = Ok ops'"
    "list_all2 ?Q ops ops'" by blast
  have "list_all2 (\<lambda>x y. holds lk (stored_view (encrypt_tags C tags (tag_name_key keys) (tag_value_key keys) (tags_hmac_key keys))) y =
      holds lk (user_view tags) x) ops ops'" for tags
    using o(2) by (rule list_all2_mono) blast
  from list_all2_ex [OF this] o(1) show ?case by auto
next
  case (Or ops)
  let ?Q = "\<lambda>op op'. \<forall>tags. holds lk (stored_view (encrypt_tags C tags (tag_name_key keys) (tag_value_key keys) (tags_hmac_key keys))) op' =
       holds lk (user_view tags) op"
  have "\<exists>ops'. map_outcome (\<lambda>op. transform op (encrypt_operator C keys)) ops = Ok ops' \<and> list_all2 ?Q ops ops'"
    using Or by (intro transform_list) (auto simp: list_all_iff)
  then obtain ops' where o: "map_outcome (\<lambda>op. transform op (encrypt_operator C keys)) ops = Ok ops'"
    "list_all2 ?Q ops ops'" by blast
  have "list_all2 (\<lambda>x y. holds lk (stored_view (encrypt_tags C tags (tag_name_key keys) (tag_value_key keys) (tags_hmac_key keys))) y =
      holds lk (user_view tags) x) ops ops'" for tags
    using o(2) by (rule list_all2_mono) blast
  from list_all2_ex [OF this] o(1) show ?case by auto
next
  case (Not op)
  then show ?case by auto
next
  case (In n vs)
  then show ?case
    by (simp add: map_enc_values some_tag_encrypted [OF assms(1)] enc_val_mem [OF assms(1)] del: set_map)
qed (use assms(1) in \<open>simp_all add: encrypt_name_value_eq some_tag_encrypted enc_val_plain_name\<close>)

text \<open>
  C21: Every query of the parser is encrypted without an error, and the encrypted query selects the
  encrypted tags of a record exactly when the query selects its tags.
\<close>

theorem encrypted_query_selects:
  assumes "crypto_laws C" "parse_from_json from_str j = Ok op"
  shows "\<exists>op'. encrypt_query C op keys = Ok op' \<and>
    (\<forall>tags. holds lk (stored_view (encrypt_tags C tags (tag_name_key keys) (tag_value_key keys) (tags_hmac_key keys))) op' =
       holds lk (user_view tags) op)"
  by (rule encrypt_query_meaning [OF assms(1) parse_from_json_plain [OF assms(2)]])

theorem encrypted_query_selects_witness:
  "parse_from_json (\<lambda>_. Some (JObject [(''a'', JString ''1'')])) ''q'' = Ok (Eq (EncryptedTagName (into_bytes ''a'')) (Unencrypted ''1'')) \<and>
   (\<exists>op'. encrypt_query plain_crypto (Eq (EncryptedTagName (into_bytes ''a'')) (Unencrypted ''1'')) zero_keys = Ok op' \<and>
    (\<forall>tags. holds (\<lambda>a b. a = b) (stored_view (encrypt_tags plain_crypto tags (tag_name_key zero_keys) (tag_value_key zero_keys)
        (tags_hmac_key zero_keys))) op' =
       holds (\<lambda>a b. a = b) (user_view tags) (Eq (EncryptedTagName (into_bytes ''a'')) (Unencrypted ''1''))))"
proof -
  have p: "parse_from_json (\<lambda>_. Some (JObject [(''a'', JString ''1'')])) ''q'' = Ok (Eq (EncryptedTagName (into_bytes ''a'')) (Unencrypted ''1''))"
    by (simp add: parse_from_json_def TagName_from_def TargetValue_from_def)
  from p encrypted_query_selects [OF plain_crypto_laws p] show ?thesis by blast
qed

end
