(* ===== verification/Wallet_Sql.thy ===== *)
theory Wallet_Sql
  imports Query_Encryption
begin

text \<open>
  Translation of queries to SQL for the default storage
  (\<open>services/wallet/storage/default/query.rs\<close>): a clause with one placeholder for each argument that
  is pushed while the clause is built. The lemmas compare the text with the printed form of an
  abstract condition, whose value over the tag tables is the meaning of the query.
\<close>

section \<open>Building the clause\<close>

datatype sql_arg = Blob bytes | Text string

type_synonym sql_args = "sql_arg list"

definition tag_clause :: "string \<Rightarrow> string \<Rightarrow> string" where
  "tag_clause table op = ''(i.id in (SELECT item_id FROM '' @ table @ '' WHERE name = ? AND value '' @ op @ '' ?))''"

fun eq_to_sql :: "TagName \<Rightarrow> TargetValue \<Rightarrow> sql_args \<Rightarrow> (string \<times> sql_args) IndyResult" where
  "eq_to_sql (PlainTagName n) (Unencrypted v) args =
     Ok (tag_clause ''tags_plaintext'' ''='', args @ [Blob n, Text v])"
| "eq_to_sql (EncryptedTagName n) (Encrypted v) args =
     Ok (tag_clause ''tags_encrypted'' ''='', args @ [Blob n, Blob v])"
| "eq_to_sql _ _ args = Err WalletQueryError"

fun neq_to_sql :: "TagName \<Rightarrow> TargetValue \<Rightarrow> sql_args \<Rightarrow> (string \<times> sql_args) IndyResult" where
  "neq_to_sql (PlainTagName n) (Unencrypted v) args =
     Ok (tag_clause ''tags_plaintext'' ''!='', args @ [Blob n, Text v])"
| "neq_to_sql (EncryptedTagName n) (Encrypted v) args =
     Ok (tag_clause ''tags_encrypted'' ''!='', args @ [Blob n, Blob v])"
| "neq_to_sql _ _ args = Err WalletQueryError"

text \<open>\<open>gt_to_sql\<close>, \<open>gte_to_sql\<close>, \<open>lt_to_sql\<close>, \<open>lte_to_sql\<close> and \<open>like_to_sql\<close> differ in the comparison.\<close>

fun plain_to_sql :: "string \<Rightarrow> TagName \<Rightarrow> TargetValue \<Rightarrow> sql_args \<Rightarrow> (string \<times> sql_args) IndyResult" where
  "plain_to_sql op (PlainTagName n) (Unencrypted v) args =
     Ok (tag_clause ''tags_plaintext'' op, args @ [Blob n, Text v])"
| "plain_to_sql op _ _ args = Err WalletQueryError"

definition gt_to_sql :: "TagName \<Rightarrow> TargetValue \<Rightarrow> sql_args \<Rightarrow> (string \<times> sql_args) IndyResult" where
  "gt_to_sql = plain_to_sql ''>''"

definition gte_to_sql :: "TagName \<Rightarrow> TargetValue \<Rightarrow> sql_args \<Rightarrow> (string \<times> sql_args) IndyResult" where
  "gte_to_sql = plain_to_sql ''>=''"

definition lt_to_sql :: "TagName \<Rightarrow> TargetValue \<Rightarrow> sql_args \<Rightarrow> (string \<times> sql_args) IndyResult" where
  "lt_to_sql = plain_to_sql ''<''"

definition lte_to_sql :: "TagName \<Rightarrow> TargetValue \<Rightarrow> sql_args \<Rightarrow> (string \<times> sql_args) IndyResult" where
  "lte_to_sql = plain_to_sql ''<=''"

definition like_to_sql :: "TagName \<Rightarrow> TargetValue \<Rightarrow> sql_args \<Rightarrow> (string \<times> sql_args) IndyResult" where
  "like_to_sql = plain_to_sql ''LIKE''"

lemmas plain_to_sql_defs = gt_to_sql_def gte_to_sql_def lt_to_sql_def lte_to_sql_def like_to_sql_def

text \<open>The loops of \<open>in_to_sql\<close> over the plaintext and over the encrypted values.\<close>

fun in_plain_loop :: "nat \<Rightarrow> nat \<Rightarrow> TargetValue list \<Rightarrow> string \<Rightarrow> sql_args \<Rightarrow> (string \<times> sql_args) IndyResult" where
  "in_plain_loop len index [] s args = Ok (s, args)"
| "in_plain_loop len index (Unencrypted target # vs) s args =
     in_plain_loop len (index + 1) vs (s @ ''?'' @ (if index < len - 1 then '','' else [])) (args @ [Text target])"
| "in_plain_loop len index (Encrypted _ # vs) s args = Err WalletQueryError"

fun in_enc_loop :: "nat \<Rightarrow> nat \<Rightarrow> TargetValue list \<Rightarrow> string \<Rightarrow> sql_args \<Rightarrow> (string \<times> sql_args) IndyResult" where
  "in_enc_loop index_before_last index [] s args = Ok (s, args)"
| "in_enc_loop index_before_last index (Encrypted target # vs) s args =
     in_enc_loop index_before_last (index + 1) vs
       (s @ ''?'' @ (if index \<le> index_before_last then '','' else [])) (args @ [Blob target])"
| "in_enc_loop index_before_last index (Unencrypted _ # vs) s args = Err WalletQueryError"

fun in_to_sql :: "profile \<Rightarrow> TagName \<Rightarrow> TargetValue list \<Rightarrow> sql_args \<Rightarrow> (string \<times> sql_args) IndyResult" where
  "in_to_sql p (PlainTagName n) vs args =
     bind_outcome
       (in_plain_loop (length vs) 0 vs
          ''(i.id in (SELECT item_id FROM tags_plaintext WHERE name = ? AND value IN ('' (args @ [Blob n]))
       (\<lambda>(s, args'). Ok (s @ '')))'', args'))"
| "in_to_sql p (EncryptedTagName n) vs args =
     bind_outcome (usize_sub p (length vs) 2)
       (\<lambda>index_before_last. bind_outcome
          (in_enc_loop index_before_last 0 vs
             ''(i.id in (SELECT item_id FROM tags_encrypted WHERE name = ? AND value IN ('' (args @ [Blob n]))
          (\<lambda>(s, args'). Ok (s @ '')))'', args')))"

function (sequential) operator_to_sql :: "profile \<Rightarrow> Operator \<Rightarrow> sql_args \<Rightarrow> (string \<times> sql_args) IndyResult"
  and join_operators_loop ::
    "profile \<Rightarrow> nat \<Rightarrow> string \<Rightarrow> nat \<Rightarrow> Operator list \<Rightarrow> string \<Rightarrow> sql_args \<Rightarrow> (string \<times> sql_args) IndyResult" where
  "operator_to_sql p (Eq n v) args = eq_to_sql n v args"
| "operator_to_sql p (Neq n v) args = neq_to_sql n v args"
| "operator_to_sql p (Gt n v) args = gt_to_sql n v args"
| "operator_to_sql p (Gte n v) args = gte_to_sql n v args"
| "operator_to_sql p (Lt n v) args = lt_to_sql n v args"
| "operator_to_sql p (Lte n v) args = lte_to_sql n v args"
| "operator_to_sql p (Like n v) args = like_to_sql n v args"
| "operator_to_sql p (In n vs) args = in_to_sql p n vs args"
| "operator_to_sql p (And ops) args =
     (if length ops > 0
      then bind_outcome (join_operators_loop p (length ops) '' AND '' 0 ops ''('' args) (\<lambda>(s, args'). Ok (s @ '')'', args'))
      else Ok ([], args))"
| "operator_to_sql p (Or ops) args =
     (if length ops > 0
      then bind_outcome (join_operators_loop p (length ops) '' OR '' 0 ops ''('' args) (\<lambda>(s, args'). Ok (s @ '')'', args'))
      else Ok ([], args))"
| "operator_to_sql p (Not op) args =
     bind_outcome (operator_to_sql p op args) (\<lambda>(s, args'). Ok (''NOT ('' @ s @ '')'', args'))"
| "join_operators_loop p len join_str index [] s args = Ok (s, args)"
| "join_operators_loop p len join_str index (op # ops) s args =
     bind_outcome (operator_to_sql p op args)
       (\<lambda>(operator_string, args').
          join_operators_loop p len join_str (index + 1) ops
            (s @ operator_string @ (if index < len - 1 then join_str else [])) args')"
  by pat_completeness auto
termination
  by (relation "measure (\<lambda>x. case x of
        Inl (p, op, args) \<Rightarrow> 2 * size op + 1
      | Inr (p, len, j, i, ops, s, args) \<Rightarrow> 2 * size_list size ops)") auto

definition wql_to_sql :: "profile \<Rightarrow> bytes \<Rightarrow> Operator \<Rightarrow> (string \<times> sql_args) IndyResult" where
  "wql_to_sql p class op =
     bind_outcome (operator_to_sql p op [Blob class])
       (\<lambda>(clause_string, arguments).
          Ok (''SELECT i.id, i.name, i.value, i.key, i.type FROM items as i WHERE i.type = ?'' @
              (if clause_string \<noteq> [] then '' AND '' @ clause_string else []), arguments))"

definition wql_to_sql_count :: "profile \<Rightarrow> bytes \<Rightarrow> Operator \<Rightarrow> (string \<times> sql_args) IndyResult" where
  "wql_to_sql_count p class op =
     bind_outcome (operator_to_sql p op [Blob class])
       (\<lambda>(clause_string, arguments).
          Ok (''SELECT count(*) FROM items as i WHERE i.type = ?'' @
              (if clause_string \<noteq> [] then '' AND '' @ clause_string else []), arguments))"

section \<open>One placeholder for each argument\<close>

abbreviation holes :: "string \<Rightarrow> nat" where
  "holes s \<equiv> count_list s (CHR ''?'')"

lemma holes_tag_clause:
  "holes (tag_clause ''tags_plaintext'' op) = 2 + holes op" "holes (tag_clause ''tags_encrypted'' op) = 2 + holes op"
  by (simp_all add: tag_clause_def)

lemma in_plain_loop_holes:
  "in_plain_loop len i vs s args = Ok (s', args') \<Longrightarrow> holes s' + length args = holes s + length args'"
  by (induction len i vs s args arbitrary: s' args' rule: in_plain_loop.induct) (fastforce split: if_splits)+

lemma in_enc_loop_holes:
  "in_enc_loop len i vs s args = Ok (s', args') \<Longrightarrow> holes s' + length args = holes s + length args'"
  by (induction len i vs s args arbitrary: s' args' rule: in_enc_loop.induct) (fastforce split: if_splits)+

lemma in_to_sql_holes: "in_to_sql p n vs args = Ok (s, args') \<Longrightarrow> holes s + length args = length args'"
  by (cases n) (auto dest!: in_plain_loop_holes in_enc_loop_holes)

lemma operator_holes:
  "operator_to_sql p op args = Ok (s', args') \<Longrightarrow> holes s' + length args = length args'"
  "holes join_str = 0 \<Longrightarrow> join_operators_loop p len join_str i ops s args = Ok (s', args') \<Longrightarrow>
   holes s' + length args = holes s + length args'"
proof (induction p op args and p len join_str i ops s args arbitrary: s' args' and s' args'
    rule: operator_to_sql_join_operators_loop.induct)
  case (8 p n vs args)
  then show ?case by (auto dest: in_to_sql_holes)
next
  case (9 p ops args)
  show ?case
  proof (cases "length ops > 0")
    case True
    with "9.prems" obtain s where s: "join_operators_loop p (length ops) '' AND '' 0 ops ''('' args = Ok (s, args')" "s' = s @ '')''"
      by auto
    from "9.IH" [OF True _ s(1)] s(2) show ?thesis by simp
  qed (use "9.prems" in auto)
next
  case (10 p ops args)
  show ?case
  proof (cases "length ops > 0")
    case True
    with "10.prems" obtain s where s: "join_operators_loop p (length ops) '' OR '' 0 ops ''('' args = Ok (s, args')" "s' = s @ '')''"
      by auto
    from "10.IH" [OF True _ s(1)] s(2) show ?thesis by simp
  qed (use "10.prems" in auto)
next
  case (13 p len join_str i op ops s args)
  then obtain s1 args1 where o: "operator_to_sql p op args = Ok (s1, args1)"
    "join_operators_loop p len join_str (i + 1) ops (s @ s1 @ (if i < len - 1 then join_str else [])) args1 = Ok (s', args')"
    by auto
  from "13.IH"(1) [OF o(1)] "13.IH"(2) [OF o(1) refl "13.prems"(1) o(2)] "13.prems"(1) show ?case
    by (simp split: if_splits)
qed (auto simp: plain_to_sql_defs holes_tag_clause elim!: eq_to_sql.elims neq_to_sql.elims plain_to_sql.elims)

section \<open>The condition behind the text\<close>

text \<open>
  A condition of the SQL fragment the translation emits: a comparison with a table of tags (the
  encrypted one when the flag is set), a membership test with a number of values, and connectives.
  Its value for an item consumes the arguments in the order of the placeholders.
\<close>

datatype sql_cond =
    SCmp bool string
  | SIn bool nat
  | SConj "sql_cond list"
  | SDisj "sql_cond list"
  | SNeg sql_cond

definition tag_table :: "bool \<Rightarrow> string" where
  "tag_table e = (if e then ''tags_encrypted'' else ''tags_plaintext'')"

fun sql_print :: "sql_cond \<Rightarrow> string" where
  "sql_print (SCmp e c) = tag_clause (tag_table e) c"
| "sql_print (SIn e n) = ''(i.id in (SELECT item_id FROM '' @ tag_table e @ '' WHERE name = ? AND value IN ('' @
     join '','' (replicate n ''?'') @ '')))''"
| "sql_print (SConj qs) = ''('' @ join '' AND '' (map sql_print qs) @ '')''"
| "sql_print (SDisj qs) = ''('' @ join '' OR '' (map sql_print qs) @ '')''"
| "sql_print (SNeg q) = ''NOT ('' @ sql_print q @ '')''"

fun sql_row :: "Tag \<Rightarrow> bool \<times> sql_arg \<times> sql_arg" where
  "sql_row (TagEncrypted n v) = (True, Blob n, Blob v)"
| "sql_row (TagPlainText n v) = (False, Blob n, Text v)"

fun on_text :: "(string \<Rightarrow> string \<Rightarrow> bool) \<Rightarrow> sql_arg \<Rightarrow> sql_arg \<Rightarrow> bool" where
  "on_text P (Text a) (Text b) = P a b"
| "on_text P _ _ = False"

definition sql_compare :: "like_match \<Rightarrow> string \<Rightarrow> sql_arg \<Rightarrow> sql_arg \<Rightarrow> bool" where
  "sql_compare lk c a b =
     (if c = ''='' then a = b
      else if c = ''!='' then a \<noteq> b
      else if c = ''>'' then on_text (\<lambda>x y. str_less y x) a b
      else if c = ''>='' then on_text (\<lambda>x y. \<not> str_less x y) a b
      else if c = ''<'' then on_text str_less a b
      else if c = ''<='' then on_text (\<lambda>x y. \<not> str_less y x) a b
      else on_text lk a b)"

definition some_row :: "Tag list \<Rightarrow> bool \<Rightarrow> sql_arg \<Rightarrow> (sql_arg \<Rightarrow> bool) \<Rightarrow> bool" where
  "some_row tags e n P = list_ex (\<lambda>t. case sql_row t of (e', n', v') \<Rightarrow> e' = e \<and> n' = n \<and> P v') tags"

function (sequential) sql_eval :: "like_match \<Rightarrow> Tag list \<Rightarrow> sql_cond \<Rightarrow> sql_args \<Rightarrow> bool \<times> sql_args"
  and sql_evals :: "like_match \<Rightarrow> Tag list \<Rightarrow> sql_cond list \<Rightarrow> sql_args \<Rightarrow> bool list \<times> sql_args" where
  "sql_eval lk tags (SCmp e c) args =
     (case args of n # v # rest \<Rightarrow> (some_row tags e n (\<lambda>w. sql_compare lk c w v), rest) | _ \<Rightarrow> (False, []))"
| "sql_eval lk tags (SIn e k) args =
     (case args of n # rest \<Rightarrow> (some_row tags e n (\<lambda>w. w \<in> set (take k rest)), drop k rest) | _ \<Rightarrow> (False, []))"
| "sql_eval lk tags (SConj qs) args = (let (bs, rest) = sql_evals lk tags qs args in (list_all (\<lambda>b. b) bs, rest))"
| "sql_eval lk tags (SDisj qs) args = (let (bs, rest) = sql_evals lk tags qs args in (list_ex (\<lambda>b. b) bs, rest))"
| "sql_eval lk tags (SNeg q) args = (let (b, rest) = sql_eval lk tags q args in (\<not> b, rest))"
| "sql_evals lk tags [] args = ([], args)"
| "sql_evals lk tags (q # qs) args =
     (let (b, rest) = sql_eval lk tags q args; (bs, rest') = sql_evals lk tags qs rest in (b # bs, rest'))"
  by pat_completeness auto
termination
  by (relation "measure (\<lambda>x. case x of
        Inl (lk, tags, q, args) \<Rightarrow> 2 * size q + 1
      | Inr (lk, tags, qs, args) \<Rightarrow> 2 * size_list size qs)") auto

text \<open>The condition and the arguments of an operator, and the operators that have them.\<close>

definition enc_name :: "TagName \<Rightarrow> bool" where
  "enc_name n = (case n of EncryptedTagName _ \<Rightarrow> True | PlainTagName _ \<Rightarrow> False)"

fun name_arg :: "TagName \<Rightarrow> sql_arg" where
  "name_arg (EncryptedTagName n) = Blob n"
| "name_arg (PlainTagName n) = Blob n"

fun value_arg :: "TargetValue \<Rightarrow> sql_arg" where
  "value_arg (Encrypted v) = Blob v"
| "value_arg (Unencrypted s) = Text s"

fun sql_of :: "Operator \<Rightarrow> sql_cond" where
  "sql_of (And ops) = SConj (map sql_of ops)"
| "sql_of (Or ops) = SDisj (map sql_of ops)"
| "sql_of (Not op) = SNeg (sql_of op)"
| "sql_of (Eq n v) = SCmp (enc_name n) ''=''"
| "sql_of (Neq n v) = SCmp (enc_name n) ''!=''"
| "sql_of (Gt n v) = SCmp False ''>''"
| "sql_of (Gte n v) = SCmp False ''>=''"
| "sql_of (Lt n v) = SCmp False ''<''"
| "sql_of (Lte n v) = SCmp False ''<=''"
| "sql_of (Like n v) = SCmp False ''LIKE''"
| "sql_of (In n vs) = SIn (enc_name n) (length vs)"

fun args_of :: "Operator \<Rightarrow> sql_args" where
  "args_of (And ops) = concat (map args_of ops)"
| "args_of (Or ops) = concat (map args_of ops)"
| "args_of (Not op) = args_of op"
| "args_of (Eq n v) = [name_arg n, value_arg v]"
| "args_of (Neq n v) = [name_arg n, value_arg v]"
| "args_of (Gt n v) = [name_arg n, value_arg v]"
| "args_of (Gte n v) = [name_arg n, value_arg v]"
| "args_of (Lt n v) = [name_arg n, value_arg v]"
| "args_of (Lte n v) = [name_arg n, value_arg v]"
| "args_of (Like n v) = [name_arg n, value_arg v]"
| "args_of (In n vs) = name_arg n # map value_arg vs"

fun matches :: "TagName \<Rightarrow> TargetValue \<Rightarrow> bool" where
  "matches (EncryptedTagName _) (Encrypted _) = True"
| "matches (PlainTagName _) (Unencrypted _) = True"
| "matches _ _ = False"

fun sql_ok :: "Operator \<Rightarrow> bool" where
  "sql_ok (And ops) = (ops \<noteq> [] \<and> list_all sql_ok ops)"
| "sql_ok (Or ops) = (ops \<noteq> [] \<and> list_all sql_ok ops)"
| "sql_ok (Not op) = sql_ok op"
| "sql_ok (Eq n v) = matches n v"
| "sql_ok (Neq n v) = matches n v"
| "sql_ok (Gt n v) = (plain_name n \<and> matches n v)"
| "sql_ok (Gte n v) = (plain_name n \<and> matches n v)"
| "sql_ok (Lt n v) = (plain_name n \<and> matches n v)"
| "sql_ok (Lte n v) = (plain_name n \<and> matches n v)"
| "sql_ok (Like n v) = (plain_name n \<and> matches n v)"
| "sql_ok (In n vs) = (list_all (matches n) vs \<and> (enc_name n \<longrightarrow> 2 \<le> length vs))"

subsection \<open>The text is the printed condition\<close>

lemma join_Cons: "join sep (x # xs) = x @ (if xs = [] then [] else sep @ join sep xs)"
  by (cases xs) auto

lemma in_plain_loop_print:
  "list_all (matches (PlainTagName n)) vs \<Longrightarrow> i + length vs = len \<Longrightarrow>
   in_plain_loop len i vs s args = Ok (s @ join '','' (replicate (length vs) ''?''), args @ map value_arg vs)"
proof (induction vs arbitrary: i s args)
  case (Cons v vs)
  then show ?case by (cases v) (auto simp: join_Cons)
qed simp

lemma in_enc_loop_print:
  "list_all (matches (EncryptedTagName n)) vs \<Longrightarrow> i + length vs = len \<Longrightarrow> 2 \<le> len \<Longrightarrow>
   in_enc_loop (len - 2) i vs s args = Ok (s @ join '','' (replicate (length vs) ''?''), args @ map value_arg vs)"
proof (induction vs arbitrary: i s args)
  case (Cons v vs)
  then have "i \<le> len - 2 \<longleftrightarrow> vs \<noteq> []" by (cases vs) auto
  with Cons show ?case by (cases v) (auto simp: join_Cons)
qed simp

lemma join_operators_print:
  "(\<And>op args. op \<in> set ops \<Longrightarrow> operator_to_sql p op args = Ok (sql_print (sql_of op), args @ args_of op)) \<Longrightarrow>
   i + length ops = len \<Longrightarrow>
   join_operators_loop p len js i ops s args =
     Ok (s @ join js (map (sql_print \<circ> sql_of) ops), args @ concat (map args_of ops))"
proof (induction ops arbitrary: i s args)
  case (Cons op ops)
  have "i < len - 1 \<longleftrightarrow> ops \<noteq> []" using Cons.prems(2) by (cases ops) auto
  with Cons.IH [of "i + 1"] Cons.prems show ?case by (auto simp: join_Cons)
qed simp

lemma operator_to_sql_print:
  "sql_ok op \<Longrightarrow> operator_to_sql p op args = Ok (sql_print (sql_of op), args @ args_of op)"
proof (induction op arbitrary: args)
  case (And ops)
  have "join_operators_loop p (length ops) '' AND '' 0 ops ''('' args =
      Ok (''('' @ join '' AND '' (map (sql_print \<circ> sql_of) ops), args @ concat (map args_of ops))"
    using And by (intro join_operators_print) (auto simp: list_all_iff)
  with And.prems show ?case by simp
next
  case (Or ops)
  have "join_operators_loop p (length ops) '' OR '' 0 ops ''('' args =
      Ok (''('' @ join '' OR '' (map (sql_print \<circ> sql_of) ops), args @ concat (map args_of ops))"
    using Or by (intro join_operators_print) (auto simp: list_all_iff)
  with Or.prems show ?case by simp
next
  case (In n vs)
  show ?case
  proof (cases n)
    case (EncryptedTagName b)
    with In.prems have "list_all (matches (EncryptedTagName b)) vs" "2 \<le> length vs" by (auto simp: enc_name_def)
    then show ?thesis
      by (simp add: EncryptedTagName enc_name_def tag_table_def in_enc_loop_print [of b vs 0 "length vs"])
  next
    case (PlainTagName b)
    with In.prems show ?thesis by (simp add: enc_name_def in_plain_loop_print tag_table_def)
  qed
qed (auto simp: plain_to_sql_defs enc_name_def tag_table_def elim!: matches.elims)

subsection \<open>The condition has the meaning of the query\<close>

lemma some_row_tag:
  assumes "\<And>w. matches n w \<Longrightarrow> P (value_arg w) = Q w"
  shows "some_row tags (enc_name n) (name_arg n) P = some_tag (stored_view tags) n Q"
proof -
  have "(case sql_row t of (e', n', v') \<Rightarrow> e' = enc_name n \<and> n' = name_arg n \<and> P v') =
      (case stored_tag t of (m, v) \<Rightarrow> m = n \<and> Q v)" for t
    using assms [of "snd (stored_tag t)"] by (cases t; cases n) (auto simp: enc_name_def)
  then show ?thesis by (simp add: some_row_def some_tag_def stored_view_def list_ex_iff)
qed

lemma value_arg_eq [simp]: "value_arg v = value_arg w \<longleftrightarrow> v = w"
  by (cases v; cases w) auto

lemma value_arg_mem [simp]: "value_arg w \<in> value_arg ` set vs \<longleftrightarrow> w \<in> set vs"
  by auto

lemma plain_name_enc: "plain_name n \<Longrightarrow> enc_name n = False"
  by (cases n) (auto simp: enc_name_def)

lemma on_text_value [simp]: "on_text P (value_arg v) (value_arg w) = on_plain P v w"
  by (cases v; cases w) auto

lemma sql_evals_all:
  "(\<And>op rest. op \<in> set ops \<Longrightarrow> sql_eval lk tags (sql_of op) (args_of op @ rest) = (h op, rest)) \<Longrightarrow>
   sql_evals lk tags (map sql_of ops) (concat (map args_of ops) @ rest) = (map h ops, rest)"
  by (induction ops) simp_all

lemma sql_eval_holds:
  "sql_ok op \<Longrightarrow> sql_eval lk tags (sql_of op) (args_of op @ rest) = (holds lk (stored_view tags) op, rest)"
proof (induction op arbitrary: rest)
  case (And ops)
  have "sql_evals lk tags (map sql_of ops) (concat (map args_of ops) @ rest) = (map (holds lk (stored_view tags)) ops, rest)"
    using And by (intro sql_evals_all) (auto simp: list_all_iff)
  then show ?case by (simp add: list_all_iff)
next
  case (Or ops)
  have "sql_evals lk tags (map sql_of ops) (concat (map args_of ops) @ rest) = (map (holds lk (stored_view tags)) ops, rest)"
    using Or by (intro sql_evals_all) (auto simp: list_all_iff)
  then show ?case by (simp add: list_ex_iff)
next
  case (Eq n v)
  then show ?case by (simp add: some_row_tag sql_compare_def)
next
  case (Neq n v)
  then show ?case by (simp add: some_row_tag sql_compare_def)
next
  case (In n vs)
  then show ?case by (simp add: some_row_tag)
next
  case (Gt n v)
  then show ?case using some_row_tag [of n] plain_name_enc [of n] by (simp add: sql_compare_def)
next
  case (Gte n v)
  then show ?case using some_row_tag [of n] plain_name_enc [of n] by (simp add: sql_compare_def)
next
  case (Lt n v)
  then show ?case using some_row_tag [of n] plain_name_enc [of n] by (simp add: sql_compare_def)
next
  case (Lte n v)
  then show ?case using some_row_tag [of n] plain_name_enc [of n] by (simp add: sql_compare_def)
next
  case (Like n v)
  then show ?case using some_row_tag [of n] plain_name_enc [of n] by (simp add: sql_compare_def)
qed simp

section \<open>Properties of the translation\<close>

text \<open>
  Queries without the degenerate operators the translation mishandles: no empty connective, and no
  list of fewer than two values for an encrypted tag.
\<close>

fun regular :: "Operator \<Rightarrow> bool" where
  "regular (And ops) = (ops \<noteq> [] \<and> list_all regular ops)"
| "regular (Or ops) = (ops \<noteq> [] \<and> list_all regular ops)"
| "regular (Not op) = regular op"
| "regular (In n vs) = (enc_name n \<longrightarrow> 2 \<le> length vs)"
| "regular _ = True"

lemma matches_enc: "plain_value v \<Longrightarrow> matches (encrypt_in_name C keys n) (enc_val C keys n v)"
  by (cases n; cases v) auto

lemma enc_name_enc [simp]: "enc_name (encrypt_in_name C keys n) = enc_name n"
  by (cases n) (auto simp: enc_name_def)

lemma plain_name_in [simp]: "plain_name (encrypt_in_name C keys n) = plain_name n"
  by (cases n) auto

lemma list_all2_all: "list_all2 (\<lambda>x y. Q y) xs ys \<Longrightarrow> list_all Q ys"
  by (induction rule: list_all2_induct) auto

lemma typed_lists:
  "list_all2 (\<lambda>x y. P y \<and> Q y = Q x) xs ys \<Longrightarrow> list_all P ys \<and> list_ex Q ys = list_ex Q xs"
  by (induction rule: list_all2_induct) auto

lemma encrypt_query_sql_ok:
  assumes "plain_query op" "regular op"
  shows "\<exists>op'. encrypt_query C op keys = Ok op' \<and> sql_ok op'"
  using assms unfolding encrypt_query_def
proof (induction op)
  case (And ops)
  have "\<exists>ops'. map_outcome (\<lambda>op. transform op (encrypt_operator C keys)) ops = Ok ops' \<and> list_all2 (\<lambda>_. sql_ok) ops ops'"
    using And by (intro transform_list) (auto simp: list_all_iff)
  then show ?case using And.prems(2) list_all2_all by fastforce
next
  case (Or ops)
  have "\<exists>ops'. map_outcome (\<lambda>op. transform op (encrypt_operator C keys)) ops = Ok ops' \<and> list_all2 (\<lambda>_. sql_ok) ops ops'"
    using Or by (intro transform_list) (auto simp: list_all_iff)
  then show ?case using Or.prems(2) list_all2_all by fastforce
next
  case (In n vs)
  then show ?case by (simp add: map_enc_values list_all_iff matches_enc)
qed (auto simp: encrypt_name_value_eq matches_enc)

text \<open>
  C32: Every SQL text of the translation has exactly as many placeholders as arguments are bound to it,
  for every query and in both build profiles.
\<close>

theorem placeholders_match_arguments:
  assumes "wql_to_sql p class op = Ok (query, arguments)"
  shows "count_list query (CHR ''?'') = length arguments"
proof -
  obtain s where "operator_to_sql p op [Blob class] = Ok (s, arguments)"
    "query = ''SELECT i.id, i.name, i.value, i.key, i.type FROM items as i WHERE i.type = ?'' @
       (if s \<noteq> [] then '' AND '' @ s else [])"
    using assms by (auto simp: wql_to_sql_def)
  with operator_holes(1) [of p op "[Blob class]" s arguments] show ?thesis by (cases "s = []") simp_all
qed

theorem placeholders_match_arguments_witness:
  "wql_to_sql Debug [1] (Not (Eq (PlainTagName [2]) (Unencrypted ''x''))) =
     Ok (''SELECT i.id, i.name, i.value, i.key, i.type FROM items as i WHERE i.type = ? AND NOT ((i.id in (SELECT item_id FROM tags_plaintext WHERE name = ? AND value = ?)))'',
         [Blob [1], Blob [2], Text ''x'']) \<and>
   count_list ''SELECT i.id, i.name, i.value, i.key, i.type FROM items as i WHERE i.type = ? AND NOT ((i.id in (SELECT item_id FROM tags_plaintext WHERE name = ? AND value = ?)))'' (CHR ''?'')
     = length [Blob [1], Blob [2], Text ''x'']"
proof -
  have "wql_to_sql Debug [1] (Not (Eq (PlainTagName [2]) (Unencrypted ''x''))) =
     Ok (''SELECT i.id, i.name, i.value, i.key, i.type FROM items as i WHERE i.type = ? AND NOT ((i.id in (SELECT item_id FROM tags_plaintext WHERE name = ? AND value = ?)))'',
         [Blob [1], Blob [2], Text ''x''])" by code_simp
  with placeholders_match_arguments [OF this] show ?thesis by blast
qed

text \<open>
  C6: A wallet search selects the right records. For a parsed query in which no conjunction or disjunction
  is empty and no encrypted tag is compared with a \<open>$in\<close> list of fewer than two values, the encrypted
  query is translated to the printed form of a condition that, evaluated on the encrypted tags of a
  record with the bound arguments in order, is the meaning of the query on its tags. The two excluded
  forms are those the translation mishandles.
\<close>

theorem search_sql_correct:
  assumes "crypto_laws C" "parse_from_json from_str j = Ok op" "regular op"
  shows "\<exists>op'. encrypt_query C op keys = Ok op' \<and>
    wql_to_sql p class op' =
      Ok (''SELECT i.id, i.name, i.value, i.key, i.type FROM items as i WHERE i.type = ? AND '' @ sql_print (sql_of op'),
          Blob class # args_of op') \<and>
    (\<forall>tags. sql_eval lk (encrypt_tags C tags (tag_name_key keys) (tag_value_key keys) (tags_hmac_key keys)) (sql_of op') (args_of op') =
       (holds lk (user_view tags) op, []))"
proof -
  have "plain_query op" by (rule parse_from_json_plain [OF assms(2)])
  then obtain op' where op': "encrypt_query C op keys = Ok op'" "sql_ok op'"
    "\<And>tags. holds lk (stored_view (encrypt_tags C tags (tag_name_key keys) (tag_value_key keys) (tags_hmac_key keys))) op' =
       holds lk (user_view tags) op"
    using encrypt_query_sql_ok [OF _ assms(3), of C keys] encrypt_query_meaning [OF assms(1), of op keys lk] by force
  have "sql_print (sql_of op') \<noteq> []" by (cases op') (simp_all add: tag_clause_def)
  then show ?thesis
    using op' operator_to_sql_print [OF op'(2), of p "[Blob class]"] sql_eval_holds [OF op'(2), of lk _ "[]"]
    by (simp add: wql_to_sql_def)
qed

theorem search_sql_correct_witness:
  "regular (Eq (EncryptedTagName (into_bytes ''a'')) (Unencrypted ''1'')) \<and>
   (\<exists>op'. encrypt_query plain_crypto (Eq (EncryptedTagName (into_bytes ''a'')) (Unencrypted ''1'')) zero_keys = Ok op' \<and>
    wql_to_sql Release [9] op' =
      Ok (''SELECT i.id, i.name, i.value, i.key, i.type FROM items as i WHERE i.type = ? AND '' @ sql_print (sql_of op'),
          Blob [9] # args_of op') \<and>
    (\<forall>tags. sql_eval (\<lambda>a b. a = b) (encrypt_tags plain_crypto tags (tag_name_key zero_keys) (tag_value_key zero_keys)
        (tags_hmac_key zero_keys)) (sql_of op') (args_of op') =
       (holds (\<lambda>a b. a = b) (user_view tags) (Eq (EncryptedTagName (into_bytes ''a'')) (Unencrypted ''1'')), [])))"
proof -
  have p: "parse_from_json (\<lambda>_. Some (JObject [(''a'', JString ''1'')])) ''q'' = Ok (Eq (EncryptedTagName (into_bytes ''a'')) (Unencrypted ''1''))"
    by (simp add: parse_from_json_def TagName_from_def TargetValue_from_def)
  have r: "regular (Eq (EncryptedTagName (into_bytes ''a'')) (Unencrypted ''1''))" by simp
  from r search_sql_correct [OF plain_crypto_laws p r] show ?thesis by blast
qed

subsection \<open>Which searches panic\<close>

text \<open>The queries in which some encrypted tag is compared with a list of fewer than two values.\<close>

fun short_in :: "Operator \<Rightarrow> bool" where
  "short_in (And ops) = list_ex short_in ops"
| "short_in (Or ops) = list_ex short_in ops"
| "short_in (Not op) = short_in op"
| "short_in (In n vs) = (enc_name n \<and> length vs < 2)"
| "short_in _ = False"

text \<open>The operators that the translation does not refuse: like \<^const>\<open>sql_ok\<close>, but with any number of operands and values.\<close>

fun sql_typed :: "Operator \<Rightarrow> bool" where
  "sql_typed (And ops) = list_all sql_typed ops"
| "sql_typed (Or ops) = list_all sql_typed ops"
| "sql_typed (Not op) = sql_typed op"
| "sql_typed (In n vs) = list_all (matches n) vs"
| "sql_typed op = sql_ok op"

lemma in_enc_loop_ok:
  "list_all (matches (EncryptedTagName n)) vs \<Longrightarrow> is_ok (in_enc_loop k i vs s args)"
proof (induction vs arbitrary: i s args)
  case (Cons v vs)
  then show ?case by (cases v) simp_all
qed simp

lemma is_ok_bind_pair [simp]: "is_ok (bind_outcome m (\<lambda>(s, args). Ok (f s args))) = is_ok m"
  by (cases m) auto

lemma join_operators_outcome:
  assumes "\<And>op args. op \<in> set ops \<Longrightarrow> if P op then operator_to_sql p op args = Panic else is_ok (operator_to_sql p op args)"
  shows "if list_ex P ops then join_operators_loop p len js i ops s args = Panic
    else is_ok (join_operators_loop p len js i ops s args)"
  using assms
proof (induction ops arbitrary: i s args)
  case (Cons op ops)
  have rest: "if list_ex P ops then join_operators_loop p len js i ops s args = Panic
      else is_ok (join_operators_loop p len js i ops s args)" for i s args
    by (rule Cons.IH) (simp add: Cons.prems)
  have one: "if P op then operator_to_sql p op args = Panic else is_ok (operator_to_sql p op args)"
    by (rule Cons.prems) simp
  show ?case
  proof (cases "P op")
    case False
    with one obtain r where "operator_to_sql p op args = Ok r" by (cases "operator_to_sql p op args") auto
    with rest False show ?thesis by (cases r) simp
  qed (use one in simp)
qed simp

lemma connective_outcome:
  assumes "\<And>op args. op \<in> set ops \<Longrightarrow>
      if p = Debug \<and> short_in op then operator_to_sql p op args = Panic else is_ok (operator_to_sql p op args)"
  shows "if p = Debug \<and> list_ex short_in ops then join_operators_loop p len js i ops s args = Panic
    else is_ok (join_operators_loop p len js i ops s args)"
proof -
  have ex: "list_ex (\<lambda>op. p = Debug \<and> short_in op) ops = (p = Debug \<and> list_ex short_in ops)"
    by (induction ops) auto
  from join_operators_outcome [of ops "\<lambda>op. p = Debug \<and> short_in op", OF assms] show ?thesis unfolding ex .
qed

lemma operator_to_sql_outcome:
  "sql_typed op \<Longrightarrow> if p = Debug \<and> short_in op then operator_to_sql p op args = Panic else is_ok (operator_to_sql p op args)"
proof (induction op arbitrary: args)
  case (And ops)
  have "if p = Debug \<and> list_ex short_in ops then join_operators_loop p (length ops) '' AND '' 0 ops ''('' args = Panic
      else is_ok (join_operators_loop p (length ops) '' AND '' 0 ops ''('' args)"
    by (rule connective_outcome) (rule And.IH, assumption, use And.prems in \<open>simp add: list_all_iff\<close>)
  then show ?case
    by (cases "ops = []"; cases "join_operators_loop p (length ops) '' AND '' 0 ops ''('' args") (auto split: if_splits)
next
  case (Or ops)
  have "if p = Debug \<and> list_ex short_in ops then join_operators_loop p (length ops) '' OR '' 0 ops ''('' args = Panic
      else is_ok (join_operators_loop p (length ops) '' OR '' 0 ops ''('' args)"
    by (rule connective_outcome) (rule Or.IH, assumption, use Or.prems in \<open>simp add: list_all_iff\<close>)
  then show ?case
    by (cases "ops = []"; cases "join_operators_loop p (length ops) '' OR '' 0 ops ''('' args") (auto split: if_splits)
next
  case (Not op)
  from Not.IH [of args] Not.prems show ?case by (cases "operator_to_sql p op args") (auto split: if_splits)
next
  case (In n vs)
  show ?case
  proof (cases n)
    case (EncryptedTagName b)
    with In in_enc_loop_ok [of b vs] show ?thesis by (cases p) (auto simp: enc_name_def usize_sub_def)
  next
    case (PlainTagName b)
    with In show ?thesis by (simp add: enc_name_def in_plain_loop_print)
  qed
qed (auto simp: plain_to_sql_defs elim!: matches.elims)

lemma encrypt_query_typed:
  assumes "plain_query op"
  shows "\<exists>op'. encrypt_query C op keys = Ok op' \<and> sql_typed op' \<and> short_in op' = short_in op"
  using assms unfolding encrypt_query_def
proof (induction op)
  case (And ops)
  have "\<exists>ops'. map_outcome (\<lambda>op. transform op (encrypt_operator C keys)) ops = Ok ops' \<and>
      list_all2 (\<lambda>op op'. sql_typed op' \<and> short_in op' = short_in op) ops ops'"
    using And by (intro transform_list) (auto simp: list_all_iff)
  then show ?case using typed_lists by fastforce
next
  case (Or ops)
  have "\<exists>ops'. map_outcome (\<lambda>op. transform op (encrypt_operator C keys)) ops = Ok ops' \<and>
      list_all2 (\<lambda>op op'. sql_typed op' \<and> short_in op' = short_in op) ops ops'"
    using Or by (intro transform_list) (auto simp: list_all_iff)
  then show ?case using typed_lists by fastforce
next
  case (In n vs)
  then show ?case by (simp add: map_enc_values list_all_iff matches_enc)
qed (auto simp: encrypt_name_value_eq matches_enc)

text \<open>
  C39: A search panics in a debug build exactly when its query compares some encrypted tag, at any depth,
  with a \<open>$in\<close> list of no or one value, which the parser accepts; every other search, and every search of
  a release build, is translated to SQL. The same holds for the query that counts the records.
\<close>

theorem short_in_panics:
  assumes "parse_from_json from_str j = Ok op"
  shows "\<exists>op'. encrypt_query C op keys = Ok op' \<and>
    (if p = Debug \<and> short_in op
     then wql_to_sql p class op' = Panic \<and> wql_to_sql_count p class op' = Panic
     else (\<exists>sql args. wql_to_sql p class op' = Ok (sql, args)) \<and> (\<exists>sql args. wql_to_sql_count p class op' = Ok (sql, args)))"
proof -
  from encrypt_query_typed [OF parse_from_json_plain [OF assms]] obtain op' where
    "encrypt_query C op keys = Ok op'" "sql_typed op'" "short_in op' = short_in op" by blast
  with operator_to_sql_outcome [of op' p "[Blob class]"] show ?thesis
    by (cases "operator_to_sql p op' [Blob class]") (auto simp: wql_to_sql_def wql_to_sql_count_def split: if_splits)
qed

theorem short_in_panics_witness:
  "let op = Or [In (EncryptedTagName (into_bytes ''a'')) [Unencrypted ''1''], Eq (PlainTagName (into_bytes ''b'')) (Unencrypted ''2'')] in
   \<exists>op'. encrypt_query plain_crypto op zero_keys = Ok op' \<and> wql_to_sql Debug [9] op' = Panic"
proof -
  let ?op = "Or [In (EncryptedTagName (into_bytes ''a'')) [Unencrypted ''1''], Eq (PlainTagName (into_bytes ''b'')) (Unencrypted ''2'')]"
  have p: "parse_from_json (\<lambda>_. Some (JObject [(''$or'', JArray [JObject [(''a'', JObject [(''$in'', JArray [JString ''1''])])],
      JObject [(''~b'', JString ''2'')]])])) ''q'' = Ok ?op" by code_simp
  from short_in_panics [OF p, of plain_crypto zero_keys Debug "[9]"] show ?thesis by (auto simp: Let_def enc_name_def)
qed

text \<open>
  An empty disjunction, which holds for no record, is translated to the same SQL as an empty
  conjunction, which holds for every record: the search returns every record of the type.
\<close>

theorem empty_or_selects_all:
  "wql_to_sql p class (Or []) = wql_to_sql p class (And []) \<and> \<not> holds lk view (Or []) \<and> holds lk view (And [])"
  by (simp add: wql_to_sql_def)

end
