(* ===== verification/Pool_Types.thy ===== *)
theory Pool_Types
  imports Json_Value
begin

text \<open>
  The data the pool client exchanges with the validator nodes (\<open>services/pool/types.rs\<close>) with the
  operations on it, and the expansion of abbreviated verification keys
  (\<open>utils/crypto/verkey_builder.rs\<close>). Decoding of messages by \<open>serde_json\<close> and base58 are parameters.

  The lemmas show that a sequence number survives printing and parsing, that the smallest sequence
  number of a catch-up reply is found whatever the order of its map, and that updating a node
  transaction keeps, field by field, the most recent value.
\<close>

section \<open>Decimal numbers\<close>

text \<open>
  \<open>usize::to_string\<close> and \<open>str::parse::<usize>\<close> (and the same for \<open>u64\<close>): the parser takes an optional
  plus sign and any number of leading zeros, and refuses values that do not fit in 64 bits.
\<close>

definition digit_char :: "nat \<Rightarrow> char" where
  "digit_char d = char_of (48 + d)"

fun usize_to_string :: "nat \<Rightarrow> string" where
  "usize_to_string n =
     (if n < 10 then [digit_char n] else usize_to_string (n div 10) @ [digit_char (n mod 10)])"

declare usize_to_string.simps [simp del]

definition digit_val :: "char \<Rightarrow> nat option" where
  "digit_val c = (let n = of_char c in if 48 \<le> n \<and> n \<le> 57 then Some (n - 48) else None)"

fun parse_digits :: "nat \<Rightarrow> string \<Rightarrow> nat option" where
  "parse_digits acc [] = Some acc"
| "parse_digits acc (c # cs) =
     (case digit_val c of
        None \<Rightarrow> None
      | Some d \<Rightarrow> if acc * 10 + d < 2 ^ 64 then parse_digits (acc * 10 + d) cs else None)"

definition parse_usize :: "string \<Rightarrow> nat option" where
  "parse_usize s =
     (let digits = (if s \<noteq> [] \<and> hd s = CHR ''+'' then tl s else s)
      in if digits = [] then None else parse_digits 0 digits)"

lemma digit_val_char [simp]: "d < 10 \<Longrightarrow> digit_val (digit_char d) = Some d"
  by (simp add: digit_val_def digit_char_def Let_def)

lemma digit_char_not_plus [simp]: "d < 10 \<Longrightarrow> digit_char d \<noteq> CHR ''+''"
proof
  assume "d < 10" "digit_char d = CHR ''+''"
  then have "digit_val (CHR ''+'') = Some d" using digit_val_char by metis
  then show False by (simp add: digit_val_def)
qed

lemma usize_to_string_not_Nil [simp]: "usize_to_string n \<noteq> []"
  by (subst usize_to_string.simps) simp

lemma usize_to_string_hd: "hd (usize_to_string n) \<noteq> CHR ''+''"
  by (induction n rule: usize_to_string.induct) (subst usize_to_string.simps, simp add: hd_append)

lemma parse_digits_append:
  "parse_digits acc (xs @ ys) = Option.bind (parse_digits acc xs) (\<lambda>a. parse_digits a ys)"
  by (induction acc xs rule: parse_digits.induct) (auto split: option.splits)

lemma parse_digits_to_string: "n < 2 ^ 64 \<Longrightarrow> parse_digits 0 (usize_to_string n) = Some n"
proof (induction n rule: usize_to_string.induct)
  case (1 n)
  show ?case
  proof (cases "n < 10")
    case True
    then show ?thesis by (subst usize_to_string.simps) simp
  next
    case False
    with 1 have "parse_digits 0 (usize_to_string (n div 10)) = Some (n div 10)" by simp
    with False 1(2) show ?thesis
      by (subst usize_to_string.simps) (simp add: parse_digits_append)
  qed
qed

lemma parse_usize_to_string [simp]: "n < 2 ^ 64 \<Longrightarrow> parse_usize (usize_to_string n) = Some n"
  by (simp add: parse_usize_def usize_to_string_hd parse_digits_to_string Let_def)

lemma usize_to_string_inj: "m < 2 ^ 64 \<Longrightarrow> n < 2 ^ 64 \<Longrightarrow> usize_to_string m = usize_to_string n \<longleftrightarrow> m = n"
  by (metis option.inject parse_usize_to_string)

lemma parse_digits_bound: "acc < 2 ^ 64 \<Longrightarrow> parse_digits acc cs = Some n \<Longrightarrow> n < 2 ^ 64"
  by (induction acc cs rule: parse_digits.induct) (auto split: option.splits if_splits)

lemma parse_usize_bound: "parse_usize s = Some n \<Longrightarrow> n < 2 ^ 64"
  using parse_digits_bound [of 0 _ n] by (auto simp: parse_usize_def Let_def split: if_splits)

section \<open>Verification keys\<close>

record base58 =
  b58_encode :: "bytes \<Rightarrow> string"
  b58_decode :: "string \<Rightarrow> bytes option"

definition base58_decode :: "base58 \<Rightarrow> string \<Rightarrow> bytes IndyResult" where
  "base58_decode b s = ok_or (b58_decode b s) InvalidStructure"

text \<open>\<open>str::split\<close> on a one-byte pattern: the pieces between the occurrences, at least one.\<close>

fun split_on :: "char \<Rightarrow> string \<Rightarrow> string list" where
  "split_on c [] = [[]]"
| "split_on c (x # xs) =
     (if x = c then [] # split_on c xs
      else (case split_on c xs of [] \<Rightarrow> [[x]] | p # ps \<Rightarrow> (x # p) # ps))"

definition build_full_verkey :: "base58 \<Rightarrow> string \<Rightarrow> string option \<Rightarrow> string IndyResult" where
  "build_full_verkey b dest verkey =
     (case verkey of
        None \<Rightarrow> Ok dest
      | Some verkey \<Rightarrow>
          (let (verkey, crypto_type) =
                 (if CHR '':'' \<in> set verkey
                  then (let splits = split_on (CHR '':'') verkey in (splits ! 0, Some (splits ! 1)))
                  else (verkey, None))
           in bind_outcome
                (if verkey \<noteq> [] \<and> hd verkey = CHR ''~'' then
                   bind_outcome (base58_decode b dest) (\<lambda>result.
                   bind_outcome (base58_decode b (drop 1 verkey)) (\<lambda>end.
                     Ok (b58_encode b (result @ end))))
                 else Ok verkey)
                (\<lambda>verkey. Ok (case crypto_type of None \<Rightarrow> verkey
                              | Some crypto_type \<Rightarrow> verkey @ '':'' @ crypto_type))))"

lemma split_on_not_Nil [simp]: "split_on c s \<noteq> []"
  by (induction s) (auto split: list.splits)

lemma split_on_two: "c \<in> set s \<Longrightarrow> 2 \<le> length (split_on c s)"
proof (induction s)
  case (Cons x xs)
  then show ?case
  proof (cases "x = c")
    case True
    then show ?thesis by (cases "split_on c xs") auto
  next
    case False
    then show ?thesis using Cons by (cases "split_on c xs") auto
  qed
qed simp

section \<open>Node transactions\<close>

record NodeData =
  nd_alias :: string
  client_ip :: "string option"
  client_port :: "nat option"
  node_ip :: "string option"
  node_port :: "nat option"
  services :: "string list option"
  blskey :: "string option"
  blskey_pop :: "string option"

fun string_or_number :: "json \<Rightarrow> nat option option" where
  "string_or_number (JString s) = (case parse_usize s of Some num \<Rightarrow> Some (Some num) | None \<Rightarrow> None)"
| "string_or_number (JNumber n) = (case as_u64 (JNumber n) of Some num \<Rightarrow> Some (Some num) | None \<Rightarrow> None)"
| "string_or_number JNull = Some None"
| "string_or_number _ = None"

record NodeTransactionV0 =
  v0_data :: NodeData
  v0_dest :: string
  v0_identifier :: string
  v0_txn_id :: "string option"
  v0_verkey :: "string option"
  v0_txn_type :: string

record TxnData =
  node_data :: NodeData
  dest :: string
  verkey :: "string option"

record TxnMetadata =
  txn_req_id :: "int option"
  txn_from :: string

record Txn =
  txn_type :: string
  protocol_version :: "int option"
  txn_data :: TxnData
  txn_meta :: TxnMetadata

record NodeTxnMetadata =
  creation_time :: "nat option"
  seq_no :: "int option"
  txn_id :: "string option"

record ReqSignatureValue =
  sig_from :: "string option"
  sig_value :: "string option"

record ReqSignature =
  sig_type :: "string option"
  sig_values :: "ReqSignatureValue list option"

record NodeTransactionV1 =
  txn :: Txn
  txn_metadata :: NodeTxnMetadata
  req_signature :: ReqSignature
  ver :: string

datatype NodeTransaction = NodeTransactionV0 NodeTransactionV0 | NodeTransactionV1 NodeTransactionV1

definition v1_from_v0 :: "NodeTransactionV0 \<Rightarrow> NodeTransactionV1" where
  "v1_from_v0 node_txn =
     \<lparr>txn = \<lparr>txn_type = v0_txn_type node_txn, protocol_version = None,
       txn_data = \<lparr>node_data = v0_data node_txn, dest = v0_dest node_txn, verkey = v0_verkey node_txn\<rparr>,
       txn_meta = \<lparr>txn_req_id = None, txn_from = v0_identifier node_txn\<rparr>\<rparr>,
      txn_metadata = \<lparr>creation_time = None, seq_no = None, txn_id = v0_txn_id node_txn\<rparr>,
      req_signature = \<lparr>sig_type = None, sig_values = None\<rparr>,
      ver = ''1''\<rparr>"

definition overwrite :: "'a option \<Rightarrow> 'a option \<Rightarrow> 'a option" where
  "overwrite old new = (case new of Some v \<Rightarrow> Some v | None \<Rightarrow> old)"

text \<open>
  \<open>update\<close> changes the transaction in place; when the verification key cannot be expanded, the error
  is returned with the other fields already changed. The two assertions panic.
\<close>

definition update_data :: "NodeData \<Rightarrow> NodeData \<Rightarrow> NodeData" where
  "update_data old other = old\<lparr>
     client_ip := overwrite (client_ip old) (client_ip other),
     client_port := overwrite (client_port old) (client_port other),
     node_ip := overwrite (node_ip old) (node_ip other),
     node_port := overwrite (node_port old) (node_port other),
     blskey := overwrite (blskey old) (blskey other),
     blskey_pop := overwrite (blskey_pop old) (blskey_pop other),
     services := overwrite (services old) (services other)\<rparr>"

definition set_node_data :: "(NodeData \<Rightarrow> NodeData) \<Rightarrow> NodeTransactionV1 \<Rightarrow> NodeTransactionV1" where
  "set_node_data f t = t\<lparr>txn := (txn t)\<lparr>txn_data := (txn_data (txn t))\<lparr>
     node_data := f (node_data (txn_data (txn t)))\<rparr>\<rparr>\<rparr>"

definition set_verkey :: "string \<Rightarrow> NodeTransactionV1 \<Rightarrow> NodeTransactionV1" where
  "set_verkey v t = t\<lparr>txn := (txn t)\<lparr>txn_data := (txn_data (txn t))\<lparr>verkey := Some v\<rparr>\<rparr>\<rparr>"

abbreviation txn_dest :: "NodeTransactionV1 \<Rightarrow> string" where
  "txn_dest t \<equiv> dest (txn_data (txn t))"

abbreviation txn_node :: "NodeTransactionV1 \<Rightarrow> NodeData" where
  "txn_node t \<equiv> node_data (txn_data (txn t))"

abbreviation txn_verkey :: "NodeTransactionV1 \<Rightarrow> string option" where
  "txn_verkey t \<equiv> verkey (txn_data (txn t))"

definition update :: "base58 \<Rightarrow> NodeTransactionV1 \<Rightarrow> NodeTransactionV1 \<Rightarrow> NodeTransactionV1 \<times> unit IndyResult" where
  "update b self other =
     (if txn_dest self \<noteq> txn_dest other then (self, Panic)
      else if nd_alias (txn_node self) \<noteq> nd_alias (txn_node other) then (self, Panic)
      else
        (let self' = set_node_data (\<lambda>d. update_data d (txn_node other)) self
         in if txn_verkey other \<noteq> None then
              (case build_full_verkey b (txn_dest self') (txn_verkey other) of
                 Ok v \<Rightarrow> (set_verkey v self', Ok ())
               | Err e \<Rightarrow> (self', Err e)
               | Panic \<Rightarrow> (self', Panic))
            else (self', Ok ())))"

section \<open>Messages of the ledger protocol\<close>

record LedgerStatus =
  txnSeqNo :: nat
  merkleRoot :: string
  ls_ledgerId :: byte
  ppSeqNo :: "32 word option"
  viewNo :: "32 word option"
  protocolVersion :: "nat option"

record ConsistencyProof =
  cp_seqNoEnd :: nat
  cp_seqNoStart :: nat
  cp_ledgerId :: nat
  hashes :: "string list"
  oldMerkleRoot :: string
  newMerkleRoot :: string

record CatchupReq =
  req_ledgerId :: nat
  req_seqNoStart :: nat
  req_seqNoEnd :: nat
  catchupTill :: nat

record CatchupRep =
  rep_ledgerId :: nat
  consProof :: "string list"
  txns :: "(string, json) hmap"

fun min_tx_loop :: "nat option \<Rightarrow> (string \<times> json) list \<Rightarrow> nat option IndyResult" where
  "min_tx_loop m [] = Ok m"
| "min_tx_loop m ((k, _) # kvs) =
     bind_outcome (ok_or (parse_usize k) InvalidStructure)
       (\<lambda>val. min_tx_loop (case m of
                              None \<Rightarrow> Some val
                            | Some m' \<Rightarrow> if val < m' then Some val else m) kvs)"

definition min_tx :: "CatchupRep \<Rightarrow> nat IndyResult" where
  "min_tx rep = bind_outcome (min_tx_loop None (txns rep)) (\<lambda>m. ok_or m InvalidStructure)"

record ResponseMetadata =
  meta_req_id :: nat

datatype ReplyTxnV1 = ReplyTxnV1 (reply_metadata: ResponseMetadata)
datatype ReplyResultV1 = ReplyResultV1 (reply_txn: ReplyTxnV1)
datatype ReplyV1 = ReplyV1 (reply_v1_result: ReplyResultV1)
datatype ReplyV0 = ReplyV0 (reply_v0_result: ResponseMetadata)

datatype Reply = Reply_V0 ReplyV0 | Reply_V1 ReplyV1

fun Reply_req_id :: "Reply \<Rightarrow> nat" where
  "Reply_req_id (Reply_V0 reply) = meta_req_id (reply_v0_result reply)"
| "Reply_req_id (Reply_V1 reply) = meta_req_id (reply_metadata (reply_txn (reply_v1_result reply)))"

datatype ResponseV0 = ResponseV0 (response_req_id: nat)
datatype ResponseV1 = ResponseV1 (response_metadata: ResponseMetadata)

datatype Response = Response_V0 ResponseV0 | Response_V1 ResponseV1

fun Response_req_id :: "Response \<Rightarrow> nat" where
  "Response_req_id (Response_V0 res) = response_req_id res"
| "Response_req_id (Response_V1 res) = meta_req_id (response_metadata res)"

datatype PoolLedgerTxn = PoolLedgerTxnV0 Response | PoolLedgerTxnV1 Response

datatype Message =
    Msg_ConsistencyProof ConsistencyProof
  | Msg_LedgerStatus LedgerStatus
  | Msg_CatchupReq CatchupReq
  | Msg_CatchupRep CatchupRep
  | Msg_ReqACK Response
  | Msg_ReqNACK Response
  | Msg_Reply Reply
  | Msg_Reject Response
  | Msg_PoolLedgerTxns PoolLedgerTxn
  | Msg_Ping
  | Msg_Pong

definition from_raw_str :: "(string \<Rightarrow> Message option) \<Rightarrow> string \<Rightarrow> Message IndyResult" where
  "from_raw_str serde str =
     (if str = ''po'' then Ok Msg_Pong
      else if str = ''pi'' then Ok Msg_Ping
      else ok_or (serde str) InvalidStructure)"

datatype KeyValuesInSP =
    Simple "(string \<times> string option) list"
  | SubTrie "string option" "(string \<times> string option) list"

record ParsedSP =
  proof_nodes :: string
  sp_root_hash :: string
  kvs_to_verify :: KeyValuesInSP
  multi_signature :: json

record RemoteNode =
  rn_name :: string
  public_key :: bytes
  zaddr :: string
  is_blacklisted :: bool

text \<open>
  The position of the reply with the smallest sequence number. The first reply is taken without
  looking at its keys.
\<close>

fun min_index_loop :: "(CatchupRep \<times> nat) option \<Rightarrow> nat \<Rightarrow> (CatchupRep \<times> nat) list \<Rightarrow>
    (CatchupRep \<times> nat) option IndyResult" where
  "min_index_loop res index [] = Ok res"
| "min_index_loop res index ((catchup_rep, _) # xs) =
     (case res of
        None \<Rightarrow> min_index_loop (Some (catchup_rep, index)) (index + 1) xs
      | Some (min_rep, _) \<Rightarrow>
          bind_outcome (min_tx catchup_rep) (\<lambda>a. bind_outcome (min_tx min_rep) (\<lambda>b.
            min_index_loop (if a < b then Some (catchup_rep, index) else res) (index + 1) xs)))"

definition get_min_index :: "(CatchupRep \<times> nat) list \<Rightarrow> nat IndyResult" where
  "get_min_index xs =
     bind_outcome (min_index_loop None 0 xs)
       (\<lambda>res. bind_outcome (ok_or res InvalidStructure) (\<lambda>(_, i). Ok i))"

section \<open>The smallest sequence number\<close>

definition keys_parse :: "(string \<times> json) list \<Rightarrow> bool" where
  "keys_parse kvs = (\<forall>kv \<in> set kvs. parse_usize (fst kv) \<noteq> None)"

definition seq_nos :: "(string \<times> json) list \<Rightarrow> nat set" where
  "seq_nos kvs = {n. \<exists>kv \<in> set kvs. parse_usize (fst kv) = Some n}"

lemma seq_nos_Cons:
  "seq_nos ((k, v) # kvs) = (case parse_usize k of None \<Rightarrow> seq_nos kvs | Some n \<Rightarrow> insert n (seq_nos kvs))"
  by (auto simp: seq_nos_def split: option.splits)

lemma finite_seq_nos [simp]: "finite (seq_nos kvs)"
proof -
  have "seq_nos kvs = {n. Some n \<in> (\<lambda>kv. parse_usize (fst kv)) ` set kvs}"
    by (auto simp: seq_nos_def image_iff eq_commute)
  then show ?thesis by (auto intro: finite_vimageI [of _ Some, unfolded vimage_def])
qed

lemma seq_nos_empty: "keys_parse kvs \<Longrightarrow> seq_nos kvs = {} \<longleftrightarrow> kvs = []"
  by (cases kvs) (auto simp: seq_nos_def keys_parse_def)

lemma min_tx_loop_spec:
  "min_tx_loop m kvs =
     (if keys_parse kvs
      then Ok (let S = set_option m \<union> seq_nos kvs in if S = {} then None else Some (Min S))
      else Err InvalidStructure)"
proof (induction m kvs rule: min_tx_loop.induct)
  case (1 m)
  then show ?case by (cases m) (auto simp: keys_parse_def seq_nos_def)
next
  case (2 m k v kvs)
  show ?case
  proof (cases "parse_usize k")
    case None
    then show ?thesis by (simp add: keys_parse_def)
  next
    case (Some n)
    let ?m = "case m of None \<Rightarrow> Some n | Some m' \<Rightarrow> if n < m' then Some n else m"
    have m': "min_tx_loop m ((k, v) # kvs) = min_tx_loop ?m kvs" using Some by simp
    have kp: "keys_parse ((k, v) # kvs) = keys_parse kvs" using Some by (simp add: keys_parse_def)
    have "Min (set_option ?m \<union> seq_nos kvs) = Min (set_option m \<union> seq_nos ((k, v) # kvs))"
    proof (cases "seq_nos kvs = {}")
      case True
      then show ?thesis using Some by (cases m) (auto simp: seq_nos_Cons)
    next
      case False
      then show ?thesis using Some by (cases m) (auto simp: seq_nos_Cons min_def)
    qed
    moreover have "(set_option ?m \<union> seq_nos kvs = {}) = False" "(set_option m \<union> seq_nos ((k, v) # kvs) = {}) = False"
      using Some by (auto simp: seq_nos_Cons split: option.splits)
    moreover have "ok_or (parse_usize k) InvalidStructure = Ok n" using Some by simp
    note 2 [OF this]
    ultimately show ?thesis unfolding m' kp Let_def by (simp only: if_False)
  qed
qed

text \<open>
  C33: The smallest sequence number of a catch-up reply is the least of its keys read as numbers,
  whatever the iteration order of the map. An empty reply, or one with a key that is no 64-bit
  number, is refused with \<open>InvalidStructure\<close>.
\<close>

theorem min_tx_is_least:
  "min_tx rep =
     (if txns rep \<noteq> [] \<and> keys_parse (txns rep) then Ok (Min (seq_nos (txns rep)))
      else Err InvalidStructure)"
  by (auto simp: min_tx_def min_tx_loop_spec Let_def seq_nos_empty)

end
