(* ===== verification/Merkle_Factory.thy ===== *)
theory Merkle_Factory
  imports Pool_Types Merkle_Spec "HOL-Library.Code_Target_Nat"
begin

text \<open>
  The ledger tree of a pool on disk (\<open>services/pool/merkle_tree_factory.rs\<close>): the genesis file of one
  JSON transaction per line, the cache file of length-prefixed binary transactions, and the node
  table built from the transactions. The directory of the pool is a record with the contents of the
  two files, the bytes that can still be written, and the file operations that fail; JSON,
  MessagePack and base58 are parameters.

  The lemmas show that a dump followed by a reload extends the ledger by the dumped transactions,
  what a truncated cache file yields, and that the node table merges the transactions of each node,
  the last one winning field by field.
\<close>

section \<open>The directory of a pool\<close>

datatype io_op = OpenCache | ReadCache | CreateCache | RemoveCache | OpenGenesis | ReadGenesis

record pool_dir =
  genesis_file :: "bytes option"
  stored_file :: "bytes option"
  disk_space :: nat
  io_fails :: "io_op \<Rightarrow> bool"

record codec =
  json_from_str :: "string \<Rightarrow> json option"
  rmp_to_vec :: "json \<Rightarrow> bytes option"
  rmp_node_txn :: "bytes \<Rightarrow> NodeTransaction option"
  base58_of :: base58

definition io_check :: "pool_dir \<Rightarrow> io_op \<Rightarrow> unit IndyResult" where
  "io_check d op = (if io_fails d op then Err IOError else Ok ())"

section \<open>Lines and blanks\<close>

text \<open>
  \<open>BufRead::lines\<close>: the pieces between line feeds, without a carriage return before the line feed; an
  empty last piece is not a line.
\<close>

definition chomp :: "bytes \<Rightarrow> bytes" where
  "chomp l = (if l \<noteq> [] \<and> last l = 13 then butlast l else l)"

fun lines_loop :: "bytes \<Rightarrow> bytes \<Rightarrow> bytes list" where
  "lines_loop acc [] = (if acc = [] then [] else [rev acc])"
| "lines_loop acc (b # bs) =
     (if b = 10 then chomp (rev acc) # lines_loop [] bs else lines_loop (b # acc) bs)"

definition byte_lines :: "bytes \<Rightarrow> bytes list" where
  "byte_lines bs = lines_loop [] bs"

text \<open>\<open>str::trim\<close> removes the characters with the Unicode property \<open>White_Space\<close> at both ends.\<close>

definition white_space :: "string list" where
  "white_space =
     [[CHR 0x09], [CHR 0x0A], [CHR 0x0B],
      [CHR 0x0C], [CHR 0x0D], [CHR 0x20],
      [CHR 0xC2, CHR 0x85], [CHR 0xC2, CHR 0xA0], [CHR 0xE1, CHR 0x9A, CHR 0x80],
      [CHR 0xE2, CHR 0x80, CHR 0x80], [CHR 0xE2, CHR 0x80, CHR 0x81], [CHR 0xE2, CHR 0x80, CHR 0x82],
      [CHR 0xE2, CHR 0x80, CHR 0x83], [CHR 0xE2, CHR 0x80, CHR 0x84], [CHR 0xE2, CHR 0x80, CHR 0x85],
      [CHR 0xE2, CHR 0x80, CHR 0x86], [CHR 0xE2, CHR 0x80, CHR 0x87], [CHR 0xE2, CHR 0x80, CHR 0x88],
      [CHR 0xE2, CHR 0x80, CHR 0x89], [CHR 0xE2, CHR 0x80, CHR 0x8A], [CHR 0xE2, CHR 0x80, CHR 0xA8],
      [CHR 0xE2, CHR 0x80, CHR 0xA9], [CHR 0xE2, CHR 0x80, CHR 0xAF], [CHR 0xE2, CHR 0x81, CHR 0x9F],
      [CHR 0xE3, CHR 0x80, CHR 0x80]]"

function strip_any :: "string list \<Rightarrow> string \<Rightarrow> string" where
  "strip_any ws s =
     (case find (\<lambda>w. w \<noteq> [] \<and> take (length w) s = w) ws of
        None \<Rightarrow> s
      | Some w \<Rightarrow> if s = [] then s else strip_any ws (drop (length w) s))"
  by pat_completeness auto
termination
  by (relation "measure (\<lambda>(ws, s). length s)") (auto simp: find_Some_iff)

declare strip_any.simps [simp del]

definition trim :: "string \<Rightarrow> string" where
  "trim s = rev (strip_any (map rev white_space) (rev (strip_any white_space s)))"

section \<open>Genesis transactions\<close>

definition parse_txn_from_json :: "codec \<Rightarrow> string \<Rightarrow> bytes IndyResult" where
  "parse_txn_from_json c line =
     (let t = trim line
      in if t = [] then Ok []
         else bind_outcome (ok_or (json_from_str c t) InvalidStructure)
           (\<lambda>v. ok_or (rmp_to_vec c v) InvalidState))"

fun genesis_loop :: "sha256 \<Rightarrow> codec \<Rightarrow> MerkleTree \<Rightarrow> bytes list \<Rightarrow> MerkleTree IndyResult" where
  "genesis_loop H c mt [] = Ok mt"
| "genesis_loop H c mt (l # ls) =
     bind_outcome (ok_or (from_utf8 l) IOError)
       (\<lambda>line. if trim line = [] then genesis_loop H c mt ls
               else bind_outcome (parse_txn_from_json c line)
                 (\<lambda>t. bind_outcome (append H mt t) (\<lambda>mt'. genesis_loop H c mt' ls)))"

definition from_genesis :: "sha256 \<Rightarrow> codec \<Rightarrow> pool_dir \<Rightarrow> bytes \<Rightarrow> MerkleTree IndyResult" where
  "from_genesis H c d content =
     bind_outcome (from_vec H []) (\<lambda>mt.
     bind_outcome (io_check d OpenGenesis) (\<lambda>_.
     bind_outcome (io_check d ReadGenesis) (\<lambda>_.
       genesis_loop H c mt (byte_lines content))))"

definition genesis_to_binary :: "codec \<Rightarrow> pool_dir \<Rightarrow> bytes \<Rightarrow> bytes list IndyResult" where
  "genesis_to_binary c d content =
     bind_outcome (io_check d OpenGenesis) (\<lambda>_.
     bind_outcome (io_check d ReadGenesis) (\<lambda>_.
       map_outcome (\<lambda>l. bind_outcome (ok_or (from_utf8 l) IOError) (parse_txn_from_json c))
         (byte_lines content)))"

section \<open>The cache file\<close>

fun le_bytes :: "nat \<Rightarrow> nat \<Rightarrow> bytes" where
  "le_bytes 0 n = []"
| "le_bytes (Suc k) n = word_of_nat (n mod 256) # le_bytes k (n div 256)"

fun le_value :: "bytes \<Rightarrow> nat" where
  "le_value [] = 0"
| "le_value (b # bs) = unat b + 256 * le_value bs"

text \<open>
  The reading loop stops at the end of the file, also when only a part of a length prefix is left.
  A length beyond the address range makes the allocation of the buffer panic. A buffer of a smaller
  length is taken to be allocated before the file turns out to be too short; a process that runs out of
  memory there is aborted, which is outside the model.
\<close>

function from_cache_loop :: "sha256 \<Rightarrow> MerkleTree \<Rightarrow> bytes \<Rightarrow> MerkleTree IndyResult" where
  "from_cache_loop H mt f =
     (if length f < 8 then Ok mt
      else
        (let n = le_value (take 8 f); f' = drop 8 f
         in if 2 ^ 63 \<le> n then Panic
            else if length f' < n then Err InvalidState
            else bind_outcome (append H mt (take n f')) (\<lambda>mt'. from_cache_loop H mt' (drop n f'))))"
  by pat_completeness auto
termination
  by (relation "measure (\<lambda>(H, mt, f). length f)") auto

declare from_cache_loop.simps [simp del]

definition from_cache :: "sha256 \<Rightarrow> pool_dir \<Rightarrow> bytes \<Rightarrow> MerkleTree IndyResult" where
  "from_cache H d content =
     bind_outcome (from_vec H []) (\<lambda>mt.
     bind_outcome (io_check d OpenCache) (\<lambda>_.
     bind_outcome (io_check d ReadCache) (\<lambda>_.
       from_cache_loop H mt content)))"

definition create :: "sha256 \<Rightarrow> codec \<Rightarrow> pool_dir \<Rightarrow> MerkleTree IndyResult" where
  "create H c d =
     (case stored_file d of
        None \<Rightarrow>
          (case genesis_file d of
             None \<Rightarrow> Err PoolNotCreated
           | Some content \<Rightarrow> from_genesis H c d content)
      | Some content \<Rightarrow> from_cache H d content)"

definition drop_cache :: "pool_dir \<Rightarrow> pool_dir \<times> unit IndyResult" where
  "drop_cache d =
     (if stored_file d \<noteq> None then
        (if io_fails d RemoveCache then (d, Err IOError) else (d\<lparr>stored_file := None\<rparr>, Ok ()))
      else (d, Err InvalidState))"

text \<open>
  \<open>write_all\<close> on the cache file, which is open for appending: on a full disk a part of the bytes is
  written before the error.
\<close>

definition write_all :: "bytes \<Rightarrow> pool_dir \<Rightarrow> pool_dir \<times> unit IndyResult" where
  "write_all data d =
     (let n = min (length data) (disk_space d)
      in (d\<lparr>stored_file := map_option (\<lambda>f. f @ take n data) (stored_file d), disk_space := disk_space d - n\<rparr>,
          if length data \<le> disk_space d then Ok () else Err IOError))"

fun dump_vec_to_file :: "bytes list \<Rightarrow> pool_dir \<Rightarrow> pool_dir \<times> unit IndyResult" where
  "dump_vec_to_file [] d = (d, Ok ())"
| "dump_vec_to_file (line # v) d =
     (case write_all (le_bytes 8 (length line)) d of
        (d', Ok _) \<Rightarrow>
          (case write_all line d' of
             (d'', Ok _) \<Rightarrow> dump_vec_to_file v d''
           | (d'', e) \<Rightarrow> (d'', e))
      | (d', e) \<Rightarrow> (d', e))"

definition dump_genesis_to_stored :: "codec \<Rightarrow> pool_dir \<Rightarrow> pool_dir \<times> unit IndyResult" where
  "dump_genesis_to_stored c d =
     (case genesis_file d of
        None \<Rightarrow> (d, Err PoolNotCreated)
      | Some content \<Rightarrow>
          (if io_fails d CreateCache then (d, Err IOError)
           else
             (let d' = d\<lparr>stored_file := Some []\<rparr>
              in case genesis_to_binary c d' content of
                   Ok genesis_vec \<Rightarrow> dump_vec_to_file genesis_vec d'
                 | Err e \<Rightarrow> (d', Err e)
                 | Panic \<Rightarrow> (d', Panic))))"

definition dump_new_txns :: "codec \<Rightarrow> bytes list \<Rightarrow> pool_dir \<Rightarrow> pool_dir \<times> unit IndyResult" where
  "dump_new_txns c ts d =
     (let (d', r) = (if stored_file d = None then dump_genesis_to_stored c d else (d, Ok ()))
      in case r of
           Ok _ \<Rightarrow> (if io_fails d' OpenCache then (d', Err IOError) else dump_vec_to_file ts d')
         | e \<Rightarrow> (d', e))"

section \<open>The node table\<close>

text \<open>
  Transactions of the two formats are accepted for their own protocol version only. A transaction
  for a known node updates its entry.
\<close>

definition node_txn_v1 :: "nat \<Rightarrow> NodeTransaction \<Rightarrow> NodeTransactionV1 IndyResult" where
  "node_txn_v1 protocol t =
     (case t of
        NodeTransactionV0 t0 \<Rightarrow> if protocol \<noteq> 1 then Err PoolIncompatibleProtocolVersion else Ok (v1_from_v0 t0)
      | NodeTransactionV1 t1 \<Rightarrow> if protocol \<noteq> 2 then Err PoolIncompatibleProtocolVersion else Ok t1)"

definition put_node :: "base58 \<Rightarrow> (string, NodeTransactionV1) hmap \<Rightarrow> NodeTransactionV1 \<Rightarrow>
    (string, NodeTransactionV1) hmap IndyResult" where
  "put_node b m t =
     (case hmap_get (txn_dest t) m of
        Some old \<Rightarrow>
          (case update b old t of
             (new, Ok _) \<Rightarrow> Ok (hmap_insert (txn_dest t) new m)
           | (_, Err e) \<Rightarrow> Err e
           | (_, Panic) \<Rightarrow> Panic)
      | None \<Rightarrow> Ok (hmap_insert (txn_dest t) t m))"

fun node_state_loop :: "codec \<Rightarrow> nat \<Rightarrow> (string, NodeTransactionV1) hmap \<Rightarrow> bytes list \<Rightarrow>
    (string, NodeTransactionV1) hmap IndyResult" where
  "node_state_loop c protocol m [] = Ok m"
| "node_state_loop c protocol m (gen_txn # ts) =
     bind_outcome (ok_or (rmp_node_txn c gen_txn) InvalidState) (\<lambda>t.
     bind_outcome (node_txn_v1 protocol t) (\<lambda>t1.
     bind_outcome (put_node (base58_of c) m t1) (\<lambda>m'. node_state_loop c protocol m' ts)))"

definition build_node_state :: "codec \<Rightarrow> nat \<Rightarrow> MerkleTree \<Rightarrow> (string, NodeTransactionV1) hmap IndyResult" where
  "build_node_state c protocol mt = node_state_loop c protocol [] (leaves_iter_collect (mt_iter mt))"

section \<open>Reading back the cache\<close>

definition encode_txns :: "bytes list \<Rightarrow> bytes" where
  "encode_txns ts = concat (map (\<lambda>t. le_bytes 8 (length t) @ t) ts)"

definition txns_small :: "bytes list \<Rightarrow> bool" where
  "txns_small ts = list_all (\<lambda>t. length t < 2 ^ 63) ts"

text \<open>A cache file is well formed when it is the encoding of a list of transactions.\<close>

function decode_txns :: "bytes \<Rightarrow> bytes list option" where
  "decode_txns f =
     (if f = [] then Some []
      else if length f < 8 then None
      else
        (let n = le_value (take 8 f); f' = drop 8 f
         in if 2 ^ 63 \<le> n \<or> length f' < n then None
            else map_option (Cons (take n f')) (decode_txns (drop n f'))))"
  by pat_completeness auto
termination
  by (relation "measure length") auto

declare decode_txns.simps [simp del]

lemma length_le_bytes [simp]: "length (le_bytes k n) = k"
  by (induction k n rule: le_bytes.induct) auto

lemma le_value_bytes: "n < 256 ^ k \<Longrightarrow> le_value (le_bytes k n) = n"
proof (induction k n rule: le_bytes.induct)
  case (2 k n)
  then have "n div 256 < 256 ^ k" by (simp add: less_mult_imp_div_less mult.commute)
  with 2 show ?case by (simp add: unsigned_of_nat take_bit_eq_mod)
qed simp

lemma le_bytes_value: "le_bytes (length bs) (le_value bs) = bs"
proof (induction bs)
  case (Cons b bs)
  have "unat b < 256" by (rule order_less_le_trans [OF unsigned_less]) simp
  with Cons show ?case by simp
qed simp

lemma encode_txns_simps [simp]:
  "encode_txns [] = []"
  "encode_txns (t # ts) = le_bytes 8 (length t) @ t @ encode_txns ts"
  "encode_txns (ts @ us) = encode_txns ts @ encode_txns us"
  by (simp_all add: encode_txns_def)

lemma txns_small_simps [simp]:
  "txns_small []"
  "txns_small (t # ts) \<longleftrightarrow> length t < 2 ^ 63 \<and> txns_small ts"
  "txns_small (ts @ us) \<longleftrightarrow> txns_small ts \<and> txns_small us"
  by (simp_all add: txns_small_def)

lemma decode_txns_Some: "decode_txns f = Some ts \<Longrightarrow> f = encode_txns ts \<and> txns_small ts"
proof (induction f arbitrary: ts rule: decode_txns.induct)
  case (1 f)
  show ?case
  proof (cases "f = []")
    case True
    with 1(2) show ?thesis by (simp add: decode_txns.simps)
  next
    case False
    define n where "n = le_value (take 8 f)"
    from 1(2) False obtain us where u: "8 \<le> length f" "n < 2 ^ 63" "n \<le> length f - 8"
      "decode_txns (drop n (drop 8 f)) = Some us" "ts = take n (drop 8 f) # us"
      by (subst (asm) decode_txns.simps) (auto simp: Let_def n_def split: if_splits)
    have "drop n (drop 8 f) = encode_txns us \<and> txns_small us"
      using 1(1) [OF False _ refl refl, of us] u by (simp add: n_def)
    moreover have "le_bytes 8 n = take 8 f"
      using le_bytes_value [of "take 8 f"] u(1) by (simp add: n_def min_absorb2)
    moreover have "f = take 8 f @ take n (drop 8 f) @ drop n (drop 8 f)" by (metis append_take_drop_id)
    ultimately show ?thesis using u by (simp add: min_absorb2)
  qed
qed

lemma from_cache_loop_txn:
  "length t < 2 ^ 63 \<Longrightarrow>
   from_cache_loop H mt (le_bytes 8 (length t) @ t @ f) =
     bind_outcome (append H mt t) (\<lambda>mt'. from_cache_loop H mt' f)"
  by (subst from_cache_loop.simps) (simp add: le_value_bytes)

lemma from_cache_loop_encode:
  "txns_small ts \<Longrightarrow> from_cache_loop H mt (encode_txns ts @ f) =
     bind_outcome (append_all (append H) mt ts) (\<lambda>mt'. from_cache_loop H mt' f)"
  by (induction ts arbitrary: mt) (auto simp: from_cache_loop_txn bind_assoc)

lemma from_cache_loop_Nil [simp]: "from_cache_loop H mt [] = Ok mt"
  by (subst from_cache_loop.simps) simp

text \<open>A file cut off anywhere yields a prefix of its transactions or is refused.\<close>

lemma from_cache_loop_cut:
  "txns_small ts \<Longrightarrow> from_cache_loop H mt (take n (encode_txns ts)) = Ok mt' \<Longrightarrow>
   \<exists>k \<le> length ts. append_all (append H) mt (take k ts) = Ok mt'"
proof (induction ts arbitrary: mt n)
  case (Cons t ts)
  let ?l = "length t"
  consider (prefix) "n < 8" | (body) "8 \<le> n" "n < 8 + ?l" | (whole) "8 + ?l \<le> n" by linarith
  then show ?case
  proof cases
    case prefix
    with Cons.prems have "mt' = mt" by (subst (asm) from_cache_loop.simps) simp
    then show ?thesis by (intro exI [of _ 0]) simp
  next
    case body
    then have "n - 8 < ?l" by linarith
    with body Cons.prems show ?thesis
      by (subst (asm) from_cache_loop.simps) (simp add: le_value_bytes Let_def)
  next
    case whole
    then have cut: "take n (encode_txns (t # ts)) = le_bytes 8 ?l @ t @ take (n - 8 - ?l) (encode_txns ts)"
      by simp
    have "bind_outcome (append H mt t) (\<lambda>mt1. from_cache_loop H mt1 (take (n - 8 - ?l) (encode_txns ts))) = Ok mt'"
      using Cons.prems(2) from_cache_loop_txn [of t H mt "take (n - 8 - ?l) (encode_txns ts)"] Cons.prems(1)
      unfolding cut by simp
    then obtain mt1 where "append H mt t = Ok mt1"
      "from_cache_loop H mt1 (take (n - 8 - ?l) (encode_txns ts)) = Ok mt'" by auto
    moreover from Cons.IH [OF _ this(2)] Cons.prems(1)
    obtain k where "k \<le> length ts" "append_all (append H) mt1 (take k ts) = Ok mt'" by auto
    ultimately show ?thesis by (intro exI [of _ "Suc k"]) simp
  qed
qed simp

section \<open>Writing the cache\<close>

definition written :: "pool_dir \<Rightarrow> bytes \<Rightarrow> nat \<Rightarrow> pool_dir" where
  "written d data n =
     d\<lparr>stored_file := map_option (\<lambda>f. f @ take n data) (stored_file d), disk_space := disk_space d - n\<rparr>"

lemma written_fields [simp]:
  "stored_file (written d data n) = map_option (\<lambda>f. f @ take n data) (stored_file d)"
  "disk_space (written d data n) = disk_space d - n"
  "io_fails (written d data n) = io_fails d"
  "genesis_file (written d data n) = genesis_file d"
  by (simp_all add: written_def)

lemma written_written:
  "written (written d a (length a)) b n = written d (a @ b) (length a + n)"
  by (cases "stored_file d") (simp_all add: written_def)

lemma written_0: "written d data 0 = d"
  by (cases "stored_file d") (simp_all add: written_def)

lemma dump_vec_written:
  "dump_vec_to_file ts d =
     (let data = encode_txns ts; n = min (length data) (disk_space d)
      in (written d data n, if length data \<le> disk_space d then Ok () else Err IOError))"
proof (induction ts d rule: dump_vec_to_file.induct)
  case (1 d)
  then show ?case by (simp add: written_0)
next
  case (2 t ts d)
  let ?p = "le_bytes 8 (length t)" and ?s = "disk_space d"
  have all: "write_all data d0 = (written d0 data (min (length data) (disk_space d0)),
     if length data \<le> disk_space d0 then Ok () else Err IOError)" for data d0
    by (simp add: write_all_def written_def Let_def)
  consider (pre) "?s < 8" | (body) "8 \<le> ?s" "?s < 8 + length t" | (whole) "8 + length t \<le> ?s" by linarith
  then show ?case
  proof cases
    case pre
    then show ?thesis by (simp add: all Let_def written_def)
  next
    case body
    have "written (written d ?p 8) t (?s - 8) = written d (?p @ t) (8 + (?s - 8))"
      using written_written [of d ?p t] by simp
    moreover have "?s - 8 < length t" using body by linarith
    ultimately show ?thesis using body by (simp add: all Let_def)
  next
    case whole
    let ?d1 = "written d ?p 8" and ?d2 = "written (written d ?p 8) t (length t)"
    have d2: "?d2 = written d (?p @ t) (8 + length t)" using written_written [of d ?p t] by simp
    have w: "write_all ?p d = (?d1, Ok ())" "write_all t ?d1 = (?d2, Ok ())"
      using whole by (simp_all add: all)
    have "dump_vec_to_file (t # ts) d = dump_vec_to_file ts ?d2" by (simp add: w)
    also have "\<dots> = (let data = encode_txns ts; n = min (length data) (disk_space ?d2)
      in (written ?d2 data n, if length data \<le> disk_space ?d2 then Ok () else Err IOError))"
      using 2 w by simp
    finally show ?thesis
      using whole written_written [of d "?p @ t" "encode_txns ts"]
      by (simp add: d2 Let_def min_def split: if_splits)
  qed
qed

section \<open>Reloading a dumped ledger\<close>

definition genesis_clean :: "bytes \<Rightarrow> bool" where
  "genesis_clean f = list_all (\<lambda>l. case from_utf8 l of None \<Rightarrow> True | Some s \<Rightarrow> trim s \<noteq> []) (byte_lines f)"

definition cache_ok :: "pool_dir \<Rightarrow> bool" where
  "cache_ok d =
     (case stored_file d of
        Some f \<Rightarrow> decode_txns f \<noteq> None
      | None \<Rightarrow> (case genesis_file d of None \<Rightarrow> True | Some f \<Rightarrow> genesis_clean f))"

text \<open>A vector holds fewer than \<open>2 ^ 63\<close> bytes.\<close>

definition codec_small :: "codec \<Rightarrow> bool" where
  "codec_small c = (\<forall>v b. rmp_to_vec c v = Some b \<longrightarrow> length b < 2 ^ 63)"

lemma decode_encode: "txns_small ts \<Longrightarrow> decode_txns (encode_txns ts) = Some ts"
proof (induction ts)
  case Nil
  then show ?case by (simp add: decode_txns.simps)
next
  case (Cons t ts)
  then show ?case by (subst decode_txns.simps) (auto simp: le_value_bytes Let_def dest: arg_cong [of _ _ length])
qed

abbreviation genesis_txn :: "codec \<Rightarrow> bytes \<Rightarrow> bytes IndyResult" where
  "genesis_txn c l \<equiv> bind_outcome (ok_or (from_utf8 l) IOError) (parse_txn_from_json c)"

lemma genesis_loop_clean:
  "map_outcome (genesis_txn c) ls = Ok ts \<Longrightarrow>
   list_all (\<lambda>l. case from_utf8 l of None \<Rightarrow> True | Some s \<Rightarrow> trim s \<noteq> []) ls \<Longrightarrow>
   genesis_loop H c mt ls = append_all (append H) mt ts"
proof (induction ls arbitrary: mt ts)
  case (Cons l ls)
  then obtain s t us where "from_utf8 l = Some s" "parse_txn_from_json c s = Ok t"
    "map_outcome (genesis_txn c) ls = Ok us" "ts = t # us" by auto
  with Cons show ?case by (auto intro: bind_cong)
qed simp

lemma parse_txn_small: "codec_small c \<Longrightarrow> parse_txn_from_json c s = Ok t \<Longrightarrow> length t < 2 ^ 63"
  by (auto simp: parse_txn_from_json_def codec_small_def Let_def split: if_splits)

lemma genesis_small: "codec_small c \<Longrightarrow> map_outcome (genesis_txn c) ls = Ok ts \<Longrightarrow> txns_small ts"
  by (induction ls arbitrary: ts) (auto dest: parse_txn_small)

text \<open>What \<open>dump_new_txns\<close> leaves on disk when it succeeds, in the two cases.\<close>

lemma dump_onto_cache:
  assumes "stored_file d = Some f"
  shows "dump_new_txns c ts d =
     (if io_fails d OpenCache then (d, Err IOError) else dump_vec_to_file ts d)"
  using assms by (simp add: dump_new_txns_def)

lemma dump_onto_genesis:
  assumes "stored_file d = None" "dump_new_txns c ts d = (d', Ok ())"
  obtains content gs where "genesis_file d = Some content" "map_outcome (genesis_txn c) (byte_lines content) = Ok gs"
    "stored_file d' = Some (encode_txns (gs @ ts))" "\<not> io_fails d OpenCache"
    "io_fails d' = io_fails d"
  using assms
  by (auto simp: dump_new_txns_def dump_genesis_to_stored_def genesis_to_binary_def dump_vec_written Let_def
      io_check_def split: option.splits if_splits outcome.splits)

lemma create_from_cache:
  assumes "stored_file d = Some (encode_txns ts)" "txns_small ts" "\<not> io_fails d OpenCache" "\<not> io_fails d ReadCache"
  shows "create H c d = bind_outcome (from_vec H []) (\<lambda>mt. append_all (append H) mt ts)"
  using assms from_cache_loop_encode [of ts H _ "[]"]
  by (simp add: create_def from_cache_def io_check_def)

lemma create_from_genesis:
  assumes "stored_file d = None" "genesis_file d = Some content" "create H c d = Ok mt" "genesis_clean content"
    "map_outcome (genesis_txn c) (byte_lines content) = Ok gs"
  shows "bind_outcome (from_vec H []) (\<lambda>mt. append_all (append H) mt gs) = Ok mt"
  using assms genesis_loop_clean [OF assms(5)]
  by (auto simp: create_def from_genesis_def genesis_clean_def)

lemma reload_dump:
  assumes c: "codec_small c" and ok: "cache_ok d" and rd: "\<not> io_fails d ReadCache" and ts: "txns_small ts"
    and cr: "create H c d = Ok mt" and dump: "dump_new_txns c ts d = (d', Ok ())"
  shows "create H c d' = append_all (append H) mt ts \<and> cache_ok d'"
proof -
  obtain old where old: "stored_file d' = Some (encode_txns (old @ ts))" "txns_small old" "\<not> io_fails d OpenCache"
    "io_fails d' = io_fails d" "bind_outcome (from_vec H []) (\<lambda>mt. append_all (append H) mt old) = Ok mt"
  proof (cases "stored_file d")
    case None
    from dump_onto_genesis [OF None dump] obtain content gs where g: "genesis_file d = Some content"
      "map_outcome (genesis_txn c) (byte_lines content) = Ok gs" "stored_file d' = Some (encode_txns (gs @ ts))"
      "\<not> io_fails d OpenCache" "io_fails d' = io_fails d" .
    from ok None g(1) have "genesis_clean content" by (simp add: cache_ok_def)
    from create_from_genesis [OF None g(1) cr this g(2)] show thesis
      using that [of gs] g genesis_small [OF c g(2)] by simp
  next
    case (Some f)
    with ok obtain old where f: "f = encode_txns old" "txns_small old"
      using decode_txns_Some by (auto simp: cache_ok_def)
    with Some dump have d': "\<not> io_fails d OpenCache" "d' = written d (encode_txns ts) (length (encode_txns ts))"
      by (auto simp: dump_onto_cache dump_vec_written Let_def min_def split: if_splits)
    from cr create_from_cache [of d old H c] Some f rd d'(1) show thesis
      using that [of old] d' f Some by simp
  qed
  from ts old have "create H c d' = bind_outcome (from_vec H []) (\<lambda>mt. append_all (append H) mt (old @ ts))"
    by (intro create_from_cache) (use rd in auto)
  with old(5) have "create H c d' = append_all (append H) mt ts"
    by (auto simp: append_all_append)
  with old ts show ?thesis by (simp add: cache_ok_def decode_encode del: encode_txns_simps)
qed

text \<open>
  C17: Dumping transactions and reloading the pool extends the ledger: when the cache file is well formed,
  or absent with a genesis file without blank lines, and can be read, the tree created from the
  directory after a successful dump is the tree created before with the dumped transactions appended,
  and the directory meets the same condition again. Every transaction is shorter than \<open>2 ^ 63\<close> bytes.
\<close>

theorem reload_after_dump:
  assumes "codec_small c" "cache_ok d" "\<not> io_fails d ReadCache" "txns_small ts"
    and "create H c d = Ok mt" "dump_new_txns c ts d = (d', Ok ())"
  shows "create H c d' = append_all (append H) mt ts \<and> cache_ok d'"
  using reload_dump [OF assms] .

text \<open>A text codec for concrete runs: a line is its own JSON string, and its own MessagePack bytes.\<close>

fun text_bytes :: "json \<Rightarrow> bytes option" where
  "text_bytes (JString s) = Some (take 100 (into_bytes s))"
| "text_bytes _ = None"

definition text_codec :: codec where
  "text_codec =
     \<lparr>json_from_str = (\<lambda>s. Some (JString s)), rmp_to_vec = text_bytes, rmp_node_txn = (\<lambda>_. None),
      base58_of = \<lparr>b58_encode = (\<lambda>_. []), b58_decode = (\<lambda>_. None)\<rparr>\<rparr>"

definition genesis_dir :: "string \<Rightarrow> pool_dir" where
  "genesis_dir s =
     \<lparr>genesis_file = Some (into_bytes s), stored_file = None, disk_space = 1000, io_fails = (\<lambda>_. False)\<rparr>"

lemma codec_small_text [simp]: "codec_small text_codec"
proof -
  have "length b < 2 ^ 63" if "text_bytes v = Some b" for v b
    using that by (cases v rule: text_bytes.cases) auto
  then show ?thesis by (simp add: codec_small_def text_codec_def)
qed

theorem reload_after_dump_witness:
  "let d = genesis_dir [CHR ''a'', CHR 0x0A, CHR ''b'', CHR 0x0A] in
   create pad_hash text_codec (fst (dump_new_txns text_codec [[7], [8, 9]] d)) =
     append_all (append pad_hash) (the (ok_val (create pad_hash text_codec d))) [[7], [8, 9]]"
proof -
  let ?d = "genesis_dir [CHR ''a'', CHR 0x0A, CHR ''b'', CHR 0x0A]"
  have ok: "is_ok (create pad_hash text_codec ?d)" by code_simp
  have cok: "cache_ok ?d" by code_simp
  have rd: "\<not> io_fails ?d ReadCache" by (simp add: genesis_dir_def)
  have small: "txns_small [[7], [8, 9]]" by code_simp
  have "snd (dump_new_txns text_codec [[7], [8, 9]] ?d) = Ok ()" by code_simp
  then have dump: "dump_new_txns text_codec [[7], [8, 9]] ?d = (fst (dump_new_txns text_codec [[7], [8, 9]] ?d), Ok ())"
    by (metis prod.collapse)
  show ?thesis unfolding Let_def
    by (rule conjunct1 [OF reload_after_dump [OF codec_small_text cok rd small is_ok_val [OF ok] dump]])
qed

text \<open>
  C20: An interrupted dump onto an existing well-formed cache never corrupts the ledger. Whatever part of
  the transactions such a dump manages to write, a later load either fails or yields the tree of the old
  transactions followed by some of the first new ones. (A first dump, which has to create the cache from
  the genesis file, can lose the ledger.)
\<close>

theorem interrupted_dump_keeps_prefix:
  assumes "stored_file d = Some (encode_txns old)" "txns_small (old @ ts)"
    and "create H c (fst (dump_new_txns c ts d)) = Ok mt"
  shows "\<exists>k \<le> length ts. from_vec H (old @ take k ts) = Ok mt"
proof -
  obtain n where st: "stored_file (fst (dump_new_txns c ts d)) = Some (encode_txns old @ take n (encode_txns ts))"
  proof (cases "io_fails d OpenCache")
    case True
    with assms(1) show thesis using that [of 0] by (simp add: dump_onto_cache)
  next
    case False
    with assms(1) show thesis
      using that [of "min (length (encode_txns ts)) (disk_space d)"]
      by (simp add: dump_onto_cache dump_vec_written Let_def)
  qed
  with assms(3) obtain mt0 where mt0: "from_vec H [] = Ok mt0"
    "from_cache_loop H mt0 (encode_txns old @ take n (encode_txns ts)) = Ok mt"
    by (auto simp: create_def from_cache_def)
  with assms(2) obtain mt1 where mt1: "append_all (append H) mt0 old = Ok mt1"
    "from_cache_loop H mt1 (take n (encode_txns ts)) = Ok mt"
    by (auto simp: from_cache_loop_encode)
  from assms(2) from_cache_loop_cut [OF _ mt1(2)] obtain k where "k \<le> length ts"
    "append_all (append H) mt1 (take k ts) = Ok mt" by auto
  with mt_log.append_all_build mt_log.append_all_build [OF mt0(1) mt1(1)] show ?thesis by fastforce
qed

theorem interrupted_dump_keeps_prefix_witness:
  "let d = \<lparr>genesis_file = None, stored_file = Some (encode_txns [[5]]), disk_space = 12, io_fails = (\<lambda>_. False)\<rparr> in
   \<exists>k \<le> length [[6 :: byte], [7]].
     from_vec pad_hash ([[5]] @ take k [[6], [7]]) = Ok (the (ok_val (create pad_hash text_codec (fst (dump_new_txns text_codec [[6], [7]] d)))))"
proof -
  let ?d = "\<lparr>genesis_file = None, stored_file = Some (encode_txns [[5]]), disk_space = 12, io_fails = (\<lambda>_. False)\<rparr>"
  have ok: "is_ok (create pad_hash text_codec (fst (dump_new_txns text_codec [[6], [7]] ?d)))" by code_simp
  have st: "stored_file ?d = Some (encode_txns [[5]])" by simp
  have small: "txns_small ([[5]] @ [[6], [7]])" by code_simp
  show ?thesis unfolding Let_def
    by (rule interrupted_dump_keeps_prefix [OF st small is_ok_val [OF ok]])
qed

text \<open>
  C38: The first dump is not atomic. When it starts from the genesis file on a full disk, it fails but
  leaves an empty cache file behind, and the next load takes the ledger to be empty instead of reading
  the genesis transactions.
\<close>

theorem full_disk_empties_ledger:
  assumes "stored_file d = None" "genesis_file d = Some content" "disk_space d = 0" "\<forall>op. \<not> io_fails d op"
    and "map_outcome (genesis_txn c) (byte_lines content) = Ok gs" "gs \<noteq> []"
  shows "snd (dump_new_txns c ts d) = Err IOError \<and> create H c (fst (dump_new_txns c ts d)) = from_vec H []"
proof -
  from assms(6) obtain g gs' where g: "gs = g # gs'" by (cases gs) auto
  have "dump_new_txns c ts d = (d\<lparr>stored_file := Some []\<rparr>, Err IOError)"
    using assms(1-5) by (simp add: g dump_new_txns_def dump_genesis_to_stored_def genesis_to_binary_def io_check_def
        write_all_def Let_def)
  then show ?thesis using assms(4) by (simp add: create_def from_cache_def io_check_def)
qed

theorem full_disk_empties_ledger_witness:
  "let d = (genesis_dir ''a'')\<lparr>disk_space := 0\<rparr> in
   create pad_hash text_codec (fst (dump_new_txns text_codec [] d)) = from_vec pad_hash []"
proof -
  let ?d = "(genesis_dir ''a'')\<lparr>disk_space := 0\<rparr>"
  have gs: "map_outcome (genesis_txn text_codec) (byte_lines (into_bytes ''a'')) = Ok [[97]]" by code_simp
  show ?thesis unfolding Let_def
    by (rule conjunct2 [OF full_disk_empties_ledger [OF _ _ _ _ gs]]) (simp_all add: genesis_dir_def)
qed

text \<open>
  A blank line of the genesis file is skipped when the tree is built from the file but becomes an
  empty transaction of the cache: dumping nothing changes the ledger. Here for a file with one
  transaction and one blank line.
\<close>

theorem blank_line_changes_ledger:
  "let d = genesis_dir [CHR ''a'', CHR 0x0A, CHR 0x0A]; d' = fst (dump_new_txns text_codec [] d) in
   map_option mt_count (ok_val (create pad_hash text_codec d)) = Some 1 \<and>
   map_option mt_count (ok_val (create pad_hash text_codec d')) = Some 2"
  by code_simp

section \<open>Last writer wins\<close>

definition latest :: "('t \<Rightarrow> 'a option) \<Rightarrow> 't list \<Rightarrow> 'a option" where
  "latest f ts = foldl overwrite None (map f ts)"

lemma latest_snoc [simp]: "latest f (ts @ [t]) = overwrite (latest f ts) (f t)"
  by (simp add: latest_def)

lemma latest_Nil [simp]: "latest f [] = None"
  by (simp add: latest_def)

lemma overwrite_simps [simp]: "overwrite None x = x" "overwrite x None = x" "overwrite x (Some v) = Some v"
  by (auto simp: overwrite_def split: option.splits)

text \<open>
  The entry \<open>t\<close> of the node table merges the transactions \<open>ts\<close> of one node. A verification key that a
  later transaction sets is written out in full before it is stored; that of the first transaction is
  kept as it is. What is neither node data nor verification key stays that of the first transaction.
\<close>

definition merged :: "base58 \<Rightarrow> NodeTransactionV1 list \<Rightarrow> NodeTransactionV1 \<Rightarrow> bool" where
  "merged b ts t =
     (ts \<noteq> [] \<and> (\<forall>u \<in> set ts. txn_dest u = txn_dest t \<and> nd_alias (txn_node u) = nd_alias (txn_node t)) \<and>
      client_ip (txn_node t) = latest (\<lambda>u. client_ip (txn_node u)) ts \<and>
      client_port (txn_node t) = latest (\<lambda>u. client_port (txn_node u)) ts \<and>
      node_ip (txn_node t) = latest (\<lambda>u. node_ip (txn_node u)) ts \<and>
      node_port (txn_node t) = latest (\<lambda>u. node_port (txn_node u)) ts \<and>
      services (txn_node t) = latest (\<lambda>u. services (txn_node u)) ts \<and>
      blskey (txn_node t) = latest (\<lambda>u. blskey (txn_node u)) ts \<and>
      blskey_pop (txn_node t) = latest (\<lambda>u. blskey_pop (txn_node u)) ts \<and>
      (case latest (\<lambda>u. txn_verkey u) (tl ts) of
         None \<Rightarrow> txn_verkey t = txn_verkey (hd ts)
       | Some v \<Rightarrow> \<exists>full. build_full_verkey b (txn_dest t) (Some v) = Ok full \<and> txn_verkey t = Some full) \<and>
      t = (hd ts)\<lparr>txn := (txn (hd ts))\<lparr>txn_data := (txn_data (txn (hd ts)))\<lparr>node_data := txn_node t, verkey := txn_verkey t\<rparr>\<rparr>\<rparr>)"

lemma merged_single: "merged b [t] t"
  by (simp add: merged_def latest_def)

lemma set_node_fields [simp]:
  "txn_node (set_node_data f t) = f (txn_node t)" "txn_dest (set_node_data f t) = txn_dest t"
  "txn_verkey (set_node_data f t) = txn_verkey t" "txn_verkey (set_verkey v t) = Some v"
  "txn_node (set_verkey v t) = txn_node t" "txn_dest (set_verkey v t) = txn_dest t"
  by (simp_all add: set_node_data_def set_verkey_def)

lemma update_Ok:
  assumes "update b old t = (new, Ok ())"
  shows "txn_dest new = txn_dest old \<and> txn_dest t = txn_dest old \<and> nd_alias (txn_node t) = nd_alias (txn_node old) \<and>
     txn_node new = update_data (txn_node old) (txn_node t)"
    and "case txn_verkey t of
        None \<Rightarrow> txn_verkey new = txn_verkey old
      | Some v \<Rightarrow> \<exists>full. build_full_verkey b (txn_dest new) (Some v) = Ok full \<and> txn_verkey new = Some full"
    and "new = old\<lparr>txn := (txn old)\<lparr>txn_data := (txn_data (txn old))\<lparr>node_data := txn_node new, verkey := txn_verkey new\<rparr>\<rparr>\<rparr>"
  using assms by (auto simp: update_def Let_def set_node_data_def set_verkey_def split: if_splits outcome.splits)

lemma merged_update:
  assumes old: "merged b ts old" and upd: "update b old t = (new, Ok ())"
  shows "merged b (ts @ [t]) new"
proof -
  note new = update_Ok [OF upd]
  let ?keep = "\<lambda>t. (hd ts)\<lparr>txn := (txn (hd ts))\<lparr>txn_data := (txn_data (txn (hd ts)))\<lparr>node_data := txn_node t, verkey := txn_verkey t\<rparr>\<rparr>\<rparr>"
    and ?F = "\<lambda>t. t\<lparr>txn := (txn t)\<lparr>txn_data := (txn_data (txn t))\<lparr>node_data := txn_node new, verkey := txn_verkey new\<rparr>\<rparr>\<rparr>"
  from old have ts: "ts \<noteq> []" "hd (ts @ [t]) = hd ts" "tl (ts @ [t]) = tl ts @ [t]" by (simp_all add: merged_def)
  from old have first: "case latest (\<lambda>u. txn_verkey u) (tl ts) of
      None \<Rightarrow> txn_verkey old = txn_verkey (hd ts)
    | Some v \<Rightarrow> \<exists>full. build_full_verkey b (txn_dest old) (Some v) = Ok full \<and> txn_verkey old = Some full"
    and keep: "old = ?keep old" unfolding merged_def by blast+
  have key: "case latest (\<lambda>u. txn_verkey u) (tl ts @ [t]) of
      None \<Rightarrow> txn_verkey new = txn_verkey (hd ts)
    | Some v \<Rightarrow> \<exists>full. build_full_verkey b (txn_dest new) (Some v) = Ok full \<and> txn_verkey new = Some full"
    using first new(1,2) by (cases "txn_verkey t"; cases "latest (\<lambda>u. txn_verkey u) (tl ts)") simp_all
  have "new = ?F old" by (rule new(3))
  also from arg_cong [OF keep, of ?F] have "\<dots> = ?keep new" by simp
  finally have rest: "new = ?keep new" .
  show ?thesis
    unfolding merged_def ts
    using old [unfolded merged_def] new(1) key rest by (simp add: update_data_def)
qed

lemma put_node_Ok:
  assumes "put_node b m t = Ok m'"
  obtains new where "m' = hmap_insert (txn_dest t) new m"
    "case hmap_get (txn_dest t) m of None \<Rightarrow> new = t | Some old \<Rightarrow> update b old t = (new, Ok ())"
  using assms by (auto simp: put_node_def split: option.splits prod.splits outcome.splits)

abbreviation of_node :: "string \<Rightarrow> NodeTransactionV1 list \<Rightarrow> NodeTransactionV1 list" where
  "of_node d vs \<equiv> filter (\<lambda>v. txn_dest v = d) vs"

definition node_table :: "base58 \<Rightarrow> NodeTransactionV1 list \<Rightarrow> (string, NodeTransactionV1) hmap \<Rightarrow> bool" where
  "node_table b vs m = (\<forall>d. case hmap_get d m of None \<Rightarrow> of_node d vs = [] | Some t \<Rightarrow> txn_dest t = d \<and> merged b (of_node d vs) t)"

lemma put_node_table:
  assumes tab: "node_table b vs m" and put: "put_node b m t = Ok m'"
  shows "node_table b (vs @ [t]) m'"
  unfolding node_table_def
proof
  fix d
  from put_node_Ok [OF put] obtain new where new: "m' = hmap_insert (txn_dest t) new m"
    "case hmap_get (txn_dest t) m of None \<Rightarrow> new = t | Some old \<Rightarrow> update b old t = (new, Ok ())" .
  from tab have at: "case hmap_get d m of None \<Rightarrow> of_node d vs = [] | Some t \<Rightarrow> txn_dest t = d \<and> merged b (of_node d vs) t" for d
    by (simp add: node_table_def)
  show "case hmap_get d m' of None \<Rightarrow> of_node d (vs @ [t]) = []
    | Some u \<Rightarrow> txn_dest u = d \<and> merged b (of_node d (vs @ [t])) u"
  proof (cases "d = txn_dest t")
    case True
    have get: "hmap_get d m' = Some new" and fil: "of_node d (vs @ [t]) = of_node d vs @ [t]"
      using True new(1) by simp_all
    have "txn_dest new = d \<and> merged b (of_node d vs @ [t]) new"
    proof (cases "hmap_get d m")
      case None
      with new(2) at [of d] True have "new = t" "of_node d vs = []" by simp_all
      with True show ?thesis by (simp only: append_Nil merged_single)
    next
      case (Some old)
      with new(2) at [of d] True have "update b old t = (new, Ok ())" "txn_dest old = d" "merged b (of_node d vs) old" by simp_all
      with update_Ok merged_update show ?thesis by blast
    qed
    then show ?thesis unfolding get fil by simp
  next
    case False
    with new at [of d] show ?thesis by (cases "hmap_get d m") auto
  qed
qed

lemma put_nodes_table:
  "node_table b us m \<Longrightarrow> append_all (put_node b) m vs = Ok m' \<Longrightarrow> node_table b (us @ vs) m'"
proof (induction vs arbitrary: us m)
  case (Cons v vs)
  then obtain m1 where "put_node b m v = Ok m1" "append_all (put_node b) m1 vs = Ok m'" by auto
  with Cons.IH [of "us @ [v]"] put_node_table [OF Cons.prems(1)] show ?case by fastforce
qed simp

definition decode_node :: "codec \<Rightarrow> nat \<Rightarrow> bytes \<Rightarrow> NodeTransactionV1 IndyResult" where
  "decode_node c protocol t =
     bind_outcome (ok_or (rmp_node_txn c t) InvalidState) (node_txn_v1 protocol)"

lemma node_state_loop_Ok:
  "node_state_loop c protocol m ts = Ok m' \<longleftrightarrow>
     (\<exists>vs. map_outcome (decode_node c protocol) ts = Ok vs \<and> append_all (put_node (base58_of c)) m vs = Ok m')"
  by (induction c protocol m ts rule: node_state_loop.induct) (auto simp: decode_node_def)

text \<open>
  C23: The node table of a ledger keeps the most recent data of every node: a node has an entry exactly
  when a transaction names it, all its transactions carry the same alias, and the addresses, ports,
  services and BLS keys of the entry are those last set on the ledger. The verification key is the last
  one that a transaction after the first sets, written out in full, or else that of the first
  transaction as it stands; everything else in the entry is that of the first transaction.
\<close>

theorem node_state_last_writer_wins:
  assumes "from_vec H xs = Ok mt" "build_node_state c protocol mt = Ok m"
  shows "\<exists>vs. map_outcome (decode_node c protocol) xs = Ok vs \<and> node_table (base58_of c) vs m"
proof -
  from assms obtain vs where "map_outcome (decode_node c protocol) xs = Ok vs"
    "append_all (put_node (base58_of c)) [] vs = Ok m"
    by (auto simp: build_node_state_def from_vec_leaves node_state_loop_Ok)
  moreover have "node_table (base58_of c) [] []" by (simp add: node_table_def)
  ultimately show ?thesis using put_nodes_table by fastforce
qed

definition sample_node :: "string \<Rightarrow> string option \<Rightarrow> string option \<Rightarrow> NodeTransaction" where
  "sample_node d ip vk = NodeTransactionV0
     \<lparr>v0_data = \<lparr>nd_alias = d, client_ip = ip, client_port = None, node_ip = None, node_port = None,
        services = None, blskey = None, blskey_pop = None\<rparr>,
      v0_dest = d, v0_identifier = [], v0_txn_id = None, v0_verkey = vk, v0_txn_type = ''0''\<rparr>"

definition node_codec :: codec where
  "node_codec = text_codec\<lparr>rmp_node_txn :=
     (\<lambda>b. Some (if b = [1] then sample_node ''A'' (Some ''x'') (Some ''~k'') else if b = [2] then sample_node ''B'' None None
                 else sample_node ''A'' (Some ''y'') (Some ''K:t'')))\<rparr>"

theorem node_state_last_writer_wins_witness:
  "\<exists>vs. map_outcome (decode_node node_codec 1) [[1], [2], [3]] = Ok vs \<and>
     node_table (base58_of node_codec) vs (the (ok_val (build_node_state node_codec 1 (the (ok_val (from_vec pad_hash [[1], [2], [3]]))))))"
proof -
  have mt: "is_ok (from_vec pad_hash [[1], [2], [3]])" by code_simp
  have m: "is_ok (build_node_state node_codec 1 (the (ok_val (from_vec pad_hash [[1], [2], [3]]))))" by code_simp
  show ?thesis by (rule node_state_last_writer_wins [OF is_ok_val [OF mt] is_ok_val [OF m]])
qed

end
