(* ===== verification/Catchup.thy ===== *)
theory Catchup
  imports Merkle_Factory Merkle_Consistency
begin

text \<open>
  Agreement on the ledger to catch up with (\<open>services/pool/catchup.rs\<close>). The nodes vote for a root
  hash and a size of the ledger, some with a consistency proof; the client adopts the first target
  with \<open>f + 1\<close> votes, or starts again from the genesis transactions when the votes can no longer
  agree.

  The lemmas show that an adopted target has the votes of \<open>f + 1\<close> nodes and that a consistency proof
  ties the local ledger to it.
\<close>

section \<open>Environment\<close>

text \<open>
  The libraries a run relies on, the build profile, and the rank by which a hash map iterates over
  the votes: every rank function is one of the unspecified orders.
\<close>

type_synonym vote = "string \<times> nat \<times> string list option"
type_synonym votes = "(vote, string hset) hmap"

record catchup_env =
  sha :: sha256
  codecs :: codec
  build_profile :: profile
  msg_to_string :: "Message \<Rightarrow> string option"
  vote_rank :: "vote \<Rightarrow> nat"

abbreviation from_base58 :: "'e catchup_env_scheme \<Rightarrow> string \<Rightarrow> bytes option" where
  "from_base58 E \<equiv> b58_decode (base58_of (codecs E))"

abbreviation to_base58 :: "'e catchup_env_scheme \<Rightarrow> bytes \<Rightarrow> string" where
  "to_base58 E \<equiv> b58_encode (base58_of (codecs E))"

section \<open>Operations\<close>

datatype CatchupProgress =
    ShouldBeStarted bytes nat MerkleTree
  | NotNeeded MerkleTree
  | Restart MerkleTree
  | InProgress

definition build_catchup_req :: "'e catchup_env_scheme \<Rightarrow> MerkleTree \<Rightarrow> nat \<Rightarrow> (string \<times> string) option IndyResult" where
  "build_catchup_req E merkle target_mt_size =
     bind_outcome (usize_sub (build_profile E) target_mt_size (mt_count merkle))
       (\<lambda>txns_cnt.
          if txns_cnt = 0 then Ok None
          else
            (let seq_no_start = mt_count merkle + 1;
                 seq_no_end = target_mt_size;
                 cr = \<lparr>req_ledgerId = 0, req_seqNoStart = seq_no_start, req_seqNoEnd = seq_no_end,
                       catchupTill = target_mt_size\<rparr>;
                 req_id = usize_to_string seq_no_start @ usize_to_string seq_no_end
             in bind_outcome (ok_or (msg_to_string E (Msg_CatchupReq cr)) InvalidState)
                  (\<lambda>req_json. Ok (Some (req_id, req_json)))))"

definition check_cons_proofs :: "'e catchup_env_scheme \<Rightarrow> MerkleTree \<Rightarrow> string list \<Rightarrow> bytes \<Rightarrow> nat \<Rightarrow> unit IndyResult" where
  "check_cons_proofs E mt cons_proofs target_mt_root target_mt_size =
     bind_outcome (map_outcome (\<lambda>cons_proof. ok_or (from_base58 E cons_proof) InvalidStructure) cons_proofs)
       (\<lambda>bytes_proofs. bind_outcome (consistency_proof (sha E) mt target_mt_root target_mt_size bytes_proofs)
          (\<lambda>good. if \<not> good then Err InvalidState else Ok ()))"

definition try_to_catch_up :: "'e catchup_env_scheme \<Rightarrow> vote \<Rightarrow> MerkleTree \<Rightarrow> CatchupProgress IndyResult" where
  "try_to_catch_up E ledger_status merkle_tree =
     (case ledger_status of (target_mt_root, target_mt_size, proofs) \<Rightarrow>
        if target_mt_size = mt_count merkle_tree then
          (if to_base58 E (root_hash merkle_tree) = target_mt_root then Ok (NotNeeded merkle_tree)
           else Err InvalidState)
        else if target_mt_size > mt_count merkle_tree then
          bind_outcome (ok_or (from_base58 E target_mt_root) InvalidStructure)
            (\<lambda>root. bind_outcome (case proofs of
                                     None \<Rightarrow> Ok ()
                                   | Some proofs' \<Rightarrow> check_cons_proofs E merkle_tree proofs' root target_mt_size)
               (\<lambda>_. Ok (ShouldBeStarted root target_mt_size merkle_tree)))
        else Err InvalidState)"

definition try_to_restart_catch_up :: "'e catchup_env_scheme \<Rightarrow> pool_dir \<Rightarrow> IndyErrorKind \<Rightarrow>
    pool_dir \<times> CatchupProgress IndyResult" where
  "try_to_restart_catch_up E d err =
     (case drop_cache d of
        (d', Ok _) \<Rightarrow> (d', bind_outcome (create (sha E) (codecs E) d') (\<lambda>merkle_tree. Ok (Restart merkle_tree)))
      | (d', _) \<Rightarrow> (d', Err err))"

definition votes_total :: "votes \<Rightarrow> nat" where
  "votes_total nodes_votes = sum_list (map (\<lambda>(_, s). length s) nodes_votes)"

definition if_consensus_reachable :: "'e catchup_env_scheme \<Rightarrow> votes \<Rightarrow> nat \<Rightarrow> nat \<Rightarrow> nat \<Rightarrow> pool_dir \<Rightarrow>
    pool_dir \<times> CatchupProgress IndyResult" where
  "if_consensus_reachable E nodes_votes node_cnt votes_cnt f d =
     (case bind_outcome (usize_sub (build_profile E) node_cnt (votes_total nodes_votes)) (\<lambda>missing.
           bind_outcome (usize_add (build_profile E) votes_cnt missing) (\<lambda>positive_votes_cnt.
           bind_outcome (usize_sub (build_profile E) node_cnt f) (\<lambda>quorum.
             Ok (positive_votes_cnt < quorum)))) of
        Ok True \<Rightarrow> try_to_restart_catch_up E d PoolTimeout
      | Ok False \<Rightarrow> (d, Ok InProgress)
      | Err e \<Rightarrow> (d, Err e)
      | Panic \<Rightarrow> (d, Panic))"

text \<open>
  \<open>count_votes\<close> is the iterator of the votes with their numbers of voters; \<open>partition\<close> splits it into the
  votes for a ledger and the entries of nodes that timed out.
\<close>

definition count_votes :: "'e catchup_env_scheme \<Rightarrow> (vote \<Rightarrow> bool) \<Rightarrow> votes \<Rightarrow> (vote \<times> nat) list" where
  "count_votes E P nodes_votes =
     sort_key (\<lambda>(key, _). vote_rank E key) (filter (\<lambda>(key, _). P key) (map (\<lambda>(key, val). (key, length val)) nodes_votes))"

definition check_nodes_responses_on_status :: "'e catchup_env_scheme \<Rightarrow> votes \<Rightarrow> MerkleTree \<Rightarrow> nat \<Rightarrow> nat \<Rightarrow>
    pool_dir \<Rightarrow> pool_dir \<times> CatchupProgress IndyResult" where
  "check_nodes_responses_on_status E nodes_votes merkle_tree node_cnt f d =
     (let votes = count_votes E (\<lambda>(key, _). key \<noteq> ''timeout'') nodes_votes;
          timeouts = count_votes E (\<lambda>(key, _). key = ''timeout'') nodes_votes;
          most_popular_not_timeout = max_by_key snd votes;
          timeout_votes = (if timeouts = [] then None else Some (last timeouts))
      in case most_popular_not_timeout of
           Some (vote, votes_cnt) \<Rightarrow>
             (if votes_cnt = f + 1 then
                (case try_to_catch_up E vote merkle_tree of
                   Err err \<Rightarrow>
                     (case drop_cache d of
                        (d', Ok _) \<Rightarrow>
                          (d', bind_outcome (create (sha E) (codecs E) d')
                                 (\<lambda>merkle_tree'. try_to_catch_up E vote merkle_tree'))
                      | (d', _) \<Rightarrow> (d', Err err))
                 | r \<Rightarrow> (d, r))
              else if_consensus_reachable E nodes_votes node_cnt votes_cnt f d)
         | None \<Rightarrow>
             (case timeout_votes of
                Some (_, votes_cnt) \<Rightarrow>
                  (case usize_sub (build_profile E) node_cnt f of
                     Ok quorum \<Rightarrow>
                       if votes_cnt = quorum then try_to_restart_catch_up E d PoolTimeout
                       else if_consensus_reachable E nodes_votes node_cnt votes_cnt f d
                   | Err e \<Rightarrow> (d, Err e)
                   | Panic \<Rightarrow> (d, Panic))
              | None \<Rightarrow> (d, Ok InProgress)))"

section \<open>Targets have a quorum\<close>

lemma set_count_votes: "set (count_votes E P nv) = {(k, length s) | k s. (k, s) \<in> set nv \<and> P k}"
  by (force simp: count_votes_def)

lemma most_popular_vote:
  assumes "max_by_key snd (count_votes E P nv) = Some (v, n)"
  obtains s where "(v, s) \<in> set nv" "P v" "n = length s"
  using max_by_key_Some [OF assms] by (auto simp: set_count_votes)

lemma try_to_catch_up_starts:
  assumes "try_to_catch_up E (root58, sz, proofs) mt = Ok (ShouldBeStarted root n mt')"
  shows "n = sz \<and> mt' = mt \<and> mt_count mt < sz \<and> from_base58 E root58 = Some root \<and>
    (case proofs of None \<Rightarrow> True | Some proofs' \<Rightarrow> check_cons_proofs E mt proofs' root sz = Ok ())"
  using assms by (auto simp: try_to_catch_up_def split: if_splits option.splits)

lemma try_to_catch_up_not_Restart [simp]:
  "try_to_catch_up E v mt \<noteq> Ok (Restart mt')" "try_to_catch_up E v mt \<noteq> Ok InProgress"
  by (auto simp: try_to_catch_up_def split: prod.splits if_splits option.splits)

lemma restart_not_target:
  "snd (try_to_restart_catch_up E d e) = Ok r \<Longrightarrow> \<exists>mt. r = Restart mt"
  by (auto simp: try_to_restart_catch_up_def split: prod.splits outcome.splits)

lemma reachable_not_target:
  "snd (if_consensus_reachable E nv n k f d) = Ok r \<Longrightarrow> r = InProgress \<or> (\<exists>mt. r = Restart mt)"
  by (auto simp: if_consensus_reachable_def dest!: restart_not_target split: outcome.splits bool.splits)

lemma no_votes_not_target:
  assumes "max_by_key snd (count_votes E (\<lambda>(key, _). key \<noteq> ''timeout'') nv) = None"
    and "snd (check_nodes_responses_on_status E nv mt n f d) = Ok r"
  shows "r = InProgress \<or> (\<exists>mt. r = Restart mt)"
proof (cases "count_votes E (\<lambda>(key, _). key = ''timeout'') nv = []")
  case True
  with assms show ?thesis by (simp add: check_nodes_responses_on_status_def Let_def)
next
  case False
  obtain v k where vk: "last (count_votes E (\<lambda>(key, _). key = ''timeout'') nv) = (v, k)" by fastforce
  show ?thesis
  proof (cases "usize_sub (build_profile E) n f :: nat IndyResult")
    case (Ok q)
    with assms False vk have "snd (if k = q then try_to_restart_catch_up E d PoolTimeout
       else if_consensus_reachable E nv n k f d) = Ok r"
      by (simp add: check_nodes_responses_on_status_def Let_def)
    then show ?thesis using restart_not_target reachable_not_target by (cases "k = q") fastforce+
  qed (use assms False vk in \<open>simp_all add: check_nodes_responses_on_status_def Let_def\<close>)
qed

text \<open>The agreed vote of a run that ends with a target or finds the ledger up to date.\<close>

lemma check_nodes_agreed:
  assumes "check_nodes_responses_on_status E nv mt n f d = (d', Ok r)" "r \<noteq> InProgress" "\<nexists>m. r = Restart m"
  obtains v s mt' where "(v, s) \<in> set nv" "fst v \<noteq> ''timeout''" "length s = f + 1"
    "try_to_catch_up E v mt' = Ok r" "mt' = mt \<or> create (sha E) (codecs E) d' = Ok mt'"
proof -
  let ?votes = "count_votes E (\<lambda>(key, _). key \<noteq> ''timeout'') nv"
  show thesis
  proof (cases "max_by_key snd ?votes")
    case None
    from no_votes_not_target [OF None] assms show thesis by (metis snd_conv)
  next
    case (Some vn)
    obtain v k where vn: "vn = (v, k)" by fastforce
    from most_popular_vote [OF Some [unfolded vn]] obtain s where s: "(v, s) \<in> set nv" "fst v \<noteq> ''timeout''" "k = length s"
      by (auto simp: case_prod_beta)
    have k: "k = f + 1"
    proof (rule ccontr)
      assume "k \<noteq> f + 1"
      with assms Some vn show False
        using reachable_not_target [of E nv n k f d r] by (auto simp: check_nodes_responses_on_status_def Let_def)
    qed
    show thesis
    proof (cases "try_to_catch_up E v mt")
      case (Err err)
      with assms(1) Some vn k obtain mt' where "create (sha E) (codecs E) d' = Ok mt'" "try_to_catch_up E v mt' = Ok r"
        by (auto simp: check_nodes_responses_on_status_def Let_def split: prod.splits outcome.splits)
      with that s k show thesis by blast
    next
      case Panic
      with assms(1) Some vn k show thesis by (simp add: check_nodes_responses_on_status_def Let_def)
    next
      case (Ok r')
      with assms(1) Some vn k have "r' = r" by (simp add: check_nodes_responses_on_status_def Let_def)
      with that s k Ok show thesis by blast
    qed
  qed
qed

text \<open>
  A target is adopted only when \<open>f + 1\<close> different nodes voted for it, so at least one of them is honest
  when at most \<open>f\<close> are faulty.
\<close>

lemma agreed_target_honest:
  assumes "check_nodes_responses_on_status E nv mt n f d = (d', Ok (ShouldBeStarted root sz mt'))"
    and "list_all (\<lambda>(_, s). distinct s) nv" "finite faulty" "card faulty \<le> f"
  shows "\<exists>root58 proofs voters node. ((root58, sz, proofs), voters) \<in> set nv \<and> root58 \<noteq> ''timeout'' \<and>
     from_base58 E root58 = Some root \<and> node \<in> set voters \<and> node \<notin> faulty \<and> mt_count mt' < sz \<and>
     (case proofs of None \<Rightarrow> True | Some proofs' \<Rightarrow> check_cons_proofs E mt' proofs' root sz = Ok ())"
proof -
  from check_nodes_agreed [OF assms(1)] obtain v s m where v: "(v, s) \<in> set nv" "fst v \<noteq> ''timeout''"
    "length s = f + 1" "try_to_catch_up E v m = Ok (ShouldBeStarted root sz mt')" by blast
  obtain root58 sz1 proofs where [simp]: "v = (root58, sz1, proofs)" by (cases v)
  have "distinct s" using assms(2) v(1) by (auto simp: list_all_iff)
  then have "card (set s) = f + 1" using v(3) by (simp add: distinct_card)
  then have "\<not> set s \<subseteq> faulty" using assms(3,4) card_mono [of faulty "set s"] by auto
  then obtain node where "node \<in> set s" "node \<notin> faulty" by blast
  with v try_to_catch_up_starts [of E root58 sz1 proofs m root sz mt'] show ?thesis by auto
qed

text \<open>An environment for concrete runs: base58 is replaced by the identity on bytes.\<close>

definition plain_env :: catchup_env where
  "plain_env =
     \<lparr>sha = pad_hash,
      codecs = text_codec\<lparr>base58_of := \<lparr>b58_encode = map (\<lambda>b. char_of (unat b)), b58_decode = (\<lambda>s. Some (into_bytes s))\<rparr>\<rparr>,
      build_profile = Debug, msg_to_string = (\<lambda>_. Some ''message''), vote_rank = (\<lambda>_. 0)\<rparr>"

section \<open>The request for missing transactions\<close>

text \<open>
  C30: For an adopted target the catch-up request is well defined in both build profiles: the
  subtraction of the sizes does not underflow, transactions are missing, and the request asks for
  exactly the sequence numbers after the local ledger up to the target.
\<close>

theorem adopted_target_is_requested:
  assumes "check_nodes_responses_on_status E nv mt n f d = (d', Ok (ShouldBeStarted root sz mt'))"
  shows "build_catchup_req E mt' sz =
     bind_outcome (ok_or (msg_to_string E (Msg_CatchupReq \<lparr>req_ledgerId = 0, req_seqNoStart = mt_count mt' + 1,
         req_seqNoEnd = sz, catchupTill = sz\<rparr>)) InvalidState)
       (\<lambda>req. Ok (Some (usize_to_string (mt_count mt' + 1) @ usize_to_string sz, req)))"
proof -
  from check_nodes_agreed [OF assms] obtain v m where "try_to_catch_up E v m = Ok (ShouldBeStarted root sz mt')" by blast
  then have "mt_count mt' < sz" using try_to_catch_up_starts by (cases v) blast
  then show ?thesis by (simp add: build_catchup_req_def Let_def)
qed

theorem adopted_target_is_requested_witness:
  "build_catchup_req plain_env (the (ok_val (from_vec pad_hash [[1]]))) 3 =
     bind_outcome (ok_or (msg_to_string plain_env (Msg_CatchupReq \<lparr>req_ledgerId = 0,
         req_seqNoStart = mt_count (the (ok_val (from_vec pad_hash [[1]]))) + 1,
         req_seqNoEnd = 3, catchupTill = 3\<rparr>)) InvalidState)
       (\<lambda>req. Ok (Some (usize_to_string (mt_count (the (ok_val (from_vec pad_hash [[1]]))) + 1) @ usize_to_string 3, req)))"
proof -
  let ?nv = "[((''root'', 3, None), [''A'', ''B''])]"
    and ?mt = "the (ok_val (from_vec pad_hash [[1]]))" and ?d = "genesis_dir []"
  have "snd (check_nodes_responses_on_status plain_env ?nv ?mt 4 1 ?d) = Ok (ShouldBeStarted (into_bytes ''root'') 3 ?mt)"
    by code_simp
  then have run: "check_nodes_responses_on_status plain_env ?nv ?mt 4 1 ?d =
     (fst (check_nodes_responses_on_status plain_env ?nv ?mt 4 1 ?d), Ok (ShouldBeStarted (into_bytes ''root'') 3 ?mt))"
    by (metis prod.collapse)
  show ?thesis by (rule adopted_target_is_requested [OF run])
qed

section \<open>Consistency proofs of replies\<close>

text \<open>An accepted list of encoded hashes makes the local ledger a prefix of the target ledger.\<close>

lemma check_cons_proofs_prefix:
  assumes "digest_length (sha E)" "from_vec (sha E) xs = Ok mt" "mth (sha E) ys = Some root"
    and "check_cons_proofs E mt proofs root (length ys) = Ok ()"
  obtains bs where "map_outcome (\<lambda>p. ok_or (from_base58 E p) InvalidStructure) proofs = Ok bs"
    "xs = take (length xs) ys \<or>
     collision (sha E) (mth_inputs (sha E) xs \<union> mth_inputs (sha E) ys \<union>
       consistency_inputs (sha E) (length xs) (root_hash mt) (length ys) bs)"
proof -
  from assms(4) obtain bs where bs: "map_outcome (\<lambda>p. ok_or (from_base58 E p) InvalidStructure) proofs = Ok bs"
    "consistency_proof (sha E) mt root (length ys) bs = Ok True"
    by (auto simp: check_cons_proofs_def split: if_splits)
  from that [OF bs(1) consistency_prefix [OF assms(1-3) bs(2)]] show thesis .
qed

end
