(* ===== verification/Pool_Events.thy ===== *)
theory Pool_Events
  imports Catchup
begin

text \<open>
  The events that connect the pool's state machines (\<open>services/pool/events.rs\<close>, with the operation
  codes of \<open>domain/ledger/constants.rs\<close>): events of the networker, of the pool and of a request, and
  the translation of a pool event into a request event. The decoders of \<open>serde_json\<close> and the table
  of registered state proof parsers are parameters.

  The lemmas show that a reply carries the identifier of the request it answers.
\<close>

section \<open>Operation codes\<close>

abbreviation GET_ATTR :: string where "GET_ATTR \<equiv> ''104''"
abbreviation GET_NYM :: string where "GET_NYM \<equiv> ''105''"
abbreviation GET_SCHEMA :: string where "GET_SCHEMA \<equiv> ''107''"
abbreviation GET_CRED_DEF :: string where "GET_CRED_DEF \<equiv> ''108''"
abbreviation POOL_RESTART :: string where "POOL_RESTART \<equiv> ''118''"
abbreviation GET_REVOC_REG_DEF :: string where "GET_REVOC_REG_DEF \<equiv> ''115''"
abbreviation GET_REVOC_REG :: string where "GET_REVOC_REG \<equiv> ''116''"
abbreviation GET_REVOC_REG_DELTA :: string where "GET_REVOC_REG_DELTA \<equiv> ''117''"
abbreviation GET_VALIDATOR_INFO :: string where "GET_VALIDATOR_INFO \<equiv> ''119''"
abbreviation GET_AUTH_RULE :: string where "GET_AUTH_RULE \<equiv> ''121''"

definition REQUESTS_FOR_STATE_PROOFS :: "string list" where
  "REQUESTS_FOR_STATE_PROOFS =
     [GET_NYM, GET_SCHEMA, GET_CRED_DEF, GET_ATTR, GET_REVOC_REG, GET_REVOC_REG_DEF, GET_REVOC_REG_DELTA, GET_AUTH_RULE]"

definition REQUEST_FOR_FULL :: "string list" where
  "REQUEST_FOR_FULL = [POOL_RESTART, GET_VALIDATOR_INFO]"

definition REQUESTS :: "string list" where
  "REQUESTS =
     [''0'', ''1'', ''3'', ''100'', ''101'', ''102'', GET_ATTR, GET_NYM, GET_SCHEMA, GET_CRED_DEF, ''109'',
      POOL_RESTART, ''111'', ''113'', ''114'', GET_REVOC_REG_DEF, GET_REVOC_REG, GET_REVOC_REG_DELTA,
      GET_VALIDATOR_INFO, ''120'', ''120'']"

definition TXN_NAMES :: "(string \<times> string) list" where
  "TXN_NAMES =
     [(''NODE'', ''0''), (''NYM'', ''1''), (''GET_TXN'', ''3''), (''ATTRIB'', ''100''), (''SCHEMA'', ''101''),
      (''CRED_DEF'', ''102''), (''CLAIM_DEF'', ''102''), (''GET_ATTR'', GET_ATTR), (''GET_NYM'', GET_NYM),
      (''GET_SCHEMA'', GET_SCHEMA), (''GET_CRED_DEF'', GET_CRED_DEF), (''POOL_UPGRADE'', ''109''),
      (''POOL_RESTART'', POOL_RESTART), (''POOL_CONFIG'', ''111''), (''REVOC_REG_DEF'', ''113''),
      (''REVOC_REG_ENTRY'', ''114''), (''GET_REVOC_REG_DEF'', GET_REVOC_REG_DEF), (''GET_REVOC_REG'', GET_REVOC_REG),
      (''GET_REVOC_REG_DELTA'', GET_REVOC_REG_DELTA), (''GET_VALIDATOR_INFO'', GET_VALIDATOR_INFO),
      (''AUTH_RULE'', ''120''), (''GET_DDO'', ''120'')]"

definition txn_name_to_code :: "string \<Rightarrow> string option" where
  "txn_name_to_code t = (if t \<in> set REQUESTS then Some t else map_of TXN_NAMES t)"

section \<open>Events\<close>

datatype NetworkerEvent =
    Ne_SendOneRequest string string int
  | Ne_SendAllRequest string string int "string list option"
  | Ne_Resend string int
  | Ne_NodesStateUpdated "RemoteNode list"
  | Ne_ExtendTimeout string string int
  | Ne_CleanTimeout string "string option"
  | Ne_Timeout

datatype PoolEvent =
    Pe_CheckCache int
  | Pe_NodeReply string string
  | Pe_Close int
  | Pe_Refresh int
  | Pe_CatchupTargetFound bytes nat MerkleTree
  | Pe_CatchupRestart MerkleTree
  | Pe_CatchupTargetNotFound IndyErrorKind
  | Pe_PoolOutdated
  | Pe_Synced MerkleTree
  | Pe_NodesBlacklisted
  | Pe_SendRequest int string "int option" "string option"
  | Pe_Timeout string string

datatype RequestEvent =
    Re_LedgerStatus LedgerStatus "string option" "MerkleTree option"
  | Re_CatchupReq MerkleTree nat bytes
  | Re_Timeout string string
  | Re_CatchupRep CatchupRep string
  | Re_CustomSingleRequest string string
  | Re_CustomConsensusRequest string string
  | Re_CustomFullRequest string string "int option" "string option"
  | Re_ConsistencyProof ConsistencyProof string
  | Re_Reply Reply string string string
  | Re_ReqACK Response string string string
  | Re_ReqNACK Response string string string
  | Re_Reject Response string string string
  | Re_PoolLedgerTxns
  | Re_Ping
  | Re_Pong
  | Re_Terminate

fun get_req_id :: "RequestEvent \<Rightarrow> string" where
  "get_req_id (Re_CustomSingleRequest _ i) = i"
| "get_req_id (Re_CustomConsensusRequest _ i) = i"
| "get_req_id (Re_CustomFullRequest _ i _ _) = i"
| "get_req_id (Re_Reply _ _ _ i) = i"
| "get_req_id (Re_ReqACK _ _ _ i) = i"
| "get_req_id (Re_ReqNACK _ _ _ i) = i"
| "get_req_id (Re_Reject _ _ _ i) = i"
| "get_req_id _ = []"

section \<open>From pool events to request events\<close>

record event_env =
  serde_message :: "string \<Rightarrow> Message option"
  serde_json :: "string \<Rightarrow> json option"
  sp_registered :: "string \<Rightarrow> bool"
  event_sha :: sha256

definition parse_msg :: "event_env \<Rightarrow> string \<Rightarrow> Message option" where
  "parse_msg V msg = ok_val (from_raw_str (serde_message V) msg)"

definition get_req_json :: "event_env \<Rightarrow> string \<Rightarrow> json IndyResult" where
  "get_req_json V msg = ok_or (serde_json V msg) InvalidStructure"

definition parse_req_id_and_op :: "event_env \<Rightarrow> string \<Rightarrow> (string \<times> string) IndyResult" where
  "parse_req_id_and_op V msg =
     bind_outcome (get_req_json V msg) (\<lambda>req_json.
     bind_outcome (ok_or (as_u64 (json_index req_json ''reqId'')) InvalidStructure) (\<lambda>req_id.
     bind_outcome (ok_or (as_str (json_index (json_index req_json ''operation'') ''type'')) InvalidStructure) (\<lambda>op.
       Ok (usize_to_string req_id, op))))"

fun reply_event :: "event_env \<Rightarrow> string \<Rightarrow> string \<Rightarrow> Message \<Rightarrow> RequestEvent IndyResult" where
  "reply_event V msg node_alias (Msg_CatchupReq _) =
     bind_outcome (case from_vec (event_sha V) [] of Err _ \<Rightarrow> Panic | r \<Rightarrow> r) (\<lambda>mt. Ok (Re_CatchupReq mt 0 []))"
| "reply_event V msg node_alias (Msg_CatchupRep rep) = Ok (Re_CatchupRep rep node_alias)"
| "reply_event V msg node_alias (Msg_LedgerStatus ls) = Ok (Re_LedgerStatus ls (Some node_alias) None)"
| "reply_event V msg node_alias (Msg_ConsistencyProof cp) = Ok (Re_ConsistencyProof cp node_alias)"
| "reply_event V msg node_alias (Msg_Reply rep) = Ok (Re_Reply rep msg node_alias (usize_to_string (Reply_req_id rep)))"
| "reply_event V msg node_alias (Msg_ReqACK rep) = Ok (Re_ReqACK rep msg node_alias (usize_to_string (Response_req_id rep)))"
| "reply_event V msg node_alias (Msg_ReqNACK rep) = Ok (Re_ReqNACK rep msg node_alias (usize_to_string (Response_req_id rep)))"
| "reply_event V msg node_alias (Msg_Reject rep) = Ok (Re_Reject rep msg node_alias (usize_to_string (Response_req_id rep)))"
| "reply_event V msg node_alias (Msg_PoolLedgerTxns _) = Ok Re_PoolLedgerTxns"
| "reply_event V msg node_alias Msg_Ping = Ok Re_Ping"
| "reply_event V msg node_alias Msg_Pong = Ok Re_Pong"

definition send_request_event :: "event_env \<Rightarrow> string \<Rightarrow> int option \<Rightarrow> string option \<Rightarrow> RequestEvent option" where
  "send_request_event V msg timeout nodes =
     (case ok_val (parse_req_id_and_op V msg) of
        Some (req_id, op) \<Rightarrow>
          (if op \<in> set REQUEST_FOR_FULL then Some (Re_CustomFullRequest msg req_id timeout nodes)
           else if timeout \<noteq> None \<or> nodes \<noteq> None then None
           else if op \<in> set REQUESTS_FOR_STATE_PROOFS \<or> sp_registered V op
           then Some (Re_CustomSingleRequest msg req_id)
           else Some (Re_CustomConsensusRequest msg req_id))
      | None \<Rightarrow> None)"

fun into_request_event :: "event_env \<Rightarrow> PoolEvent \<Rightarrow> RequestEvent option IndyResult" where
  "into_request_event V (Pe_NodeReply msg node_alias) =
     (case parse_msg V msg of
        None \<Rightarrow> Ok None
      | Some parsed \<Rightarrow> bind_outcome (reply_event V msg node_alias parsed) (\<lambda>e. Ok (Some e)))"
| "into_request_event V (Pe_SendRequest _ msg timeout nodes) = Ok (send_request_event V msg timeout nodes)"
| "into_request_event V (Pe_Timeout req_id node_alias) = Ok (Some (Re_Timeout req_id node_alias))"
| "into_request_event V _ = Ok None"

section \<open>Replies find their request\<close>

fun answer_id :: "Message \<Rightarrow> nat option" where
  "answer_id (Msg_Reply rep) = Some (Reply_req_id rep)"
| "answer_id (Msg_ReqACK rep) = Some (Response_req_id rep)"
| "answer_id (Msg_ReqNACK rep) = Some (Response_req_id rep)"
| "answer_id (Msg_Reject rep) = Some (Response_req_id rep)"
| "answer_id _ = None"

lemma send_request_id:
  assumes "into_request_event V (Pe_SendRequest cmd req timeout nodes) = Ok (Some e)" "serde_json V req = Some j"
  obtains n where "as_u64 (json_index j ''reqId'') = Some n" "get_req_id e = usize_to_string n"
  using assms
  by (auto simp: send_request_event_def parse_req_id_and_op_def get_req_json_def ok_val_Some
      split: option.splits if_splits)

lemma answer_event_id:
  assumes "into_request_event V (Pe_NodeReply msg node) = Ok (Some e)" "parse_msg V msg = Some m" "answer_id m = Some n"
  shows "get_req_id e = usize_to_string n"
  using assms by (cases m) auto

text \<open>
  C27: An answer of a node is matched to a request exactly when it carries its number: the identifier
  under which a request of the user is kept equals the identifier of an answer (a reply, an
  acknowledgement, a negative acknowledgement or a rejection) if and only if the \<open>reqId\<close> of the
  request is the number in the answer.
\<close>

theorem answer_finds_request:
  assumes "into_request_event V (Pe_SendRequest cmd req timeout nodes) = Ok (Some e)" "serde_json V req = Some j"
    and "into_request_event V (Pe_NodeReply msg node) = Ok (Some e')" "parse_msg V msg = Some m" "answer_id m = Some n'"
    and "as_u64 (json_index j ''reqId'') = Some n" "n < 2 ^ 64" "n' < 2 ^ 64"
  shows "get_req_id e = get_req_id e' \<longleftrightarrow> n = n'"
proof -
  from send_request_id [OF assms(1,2)] assms(6) have "get_req_id e = usize_to_string n" by (metis option.inject)
  moreover have "get_req_id e' = usize_to_string n'" by (rule answer_event_id [OF assms(3-5)])
  ultimately show ?thesis using usize_to_string_inj [OF assms(7,8)] by simp
qed

definition sample_events :: event_env where
  "sample_events =
     \<lparr>serde_message = (\<lambda>_. Some (Msg_Reply (Reply_V0 (ReplyV0 \<lparr>meta_req_id = 12\<rparr>)))),
      serde_json = (\<lambda>_. Some (JObject [(''operation'', JObject [(''type'', JString ''1'')]), (''reqId'', JNumber (PosInt 12))])),
      sp_registered = (\<lambda>_. False), event_sha = pad_hash\<rparr>"

theorem answer_finds_request_witness:
  "get_req_id (Re_CustomConsensusRequest ''q'' ''12'') =
   get_req_id (Re_Reply (Reply_V0 (ReplyV0 \<lparr>meta_req_id = 12\<rparr>)) ''r'' ''A'' ''12'') \<longleftrightarrow> (12 :: nat) = 12"
proof -
  let ?j = "JObject [(''operation'', JObject [(''type'', JString ''1'')]), (''reqId'', JNumber (PosInt 12))]"
  have "into_request_event sample_events (Pe_SendRequest 1 ''q'' None None) = Ok (Some (Re_CustomConsensusRequest ''q'' ''12''))"
    by code_simp
  moreover have "serde_json sample_events ''q'' = Some ?j" by code_simp
  moreover have "into_request_event sample_events (Pe_NodeReply ''r'' ''A'') =
     Ok (Some (Re_Reply (Reply_V0 (ReplyV0 \<lparr>meta_req_id = 12\<rparr>)) ''r'' ''A'' ''12''))" by code_simp
  moreover have "parse_msg sample_events ''r'' = Some (Msg_Reply (Reply_V0 (ReplyV0 \<lparr>meta_req_id = 12\<rparr>)))" by code_simp
  moreover have "answer_id (Msg_Reply (Reply_V0 (ReplyV0 \<lparr>meta_req_id = 12\<rparr>))) = Some 12" by simp
  moreover have "as_u64 (json_index ?j ''reqId'') = Some 12" by code_simp
  ultimately show ?thesis by (rule answer_finds_request) simp_all
qed

end
