(* ===== verification/Ledger_Response.thy ===== *)
theory Ledger_Response
  imports Json_Value
begin

text \<open>
  Metadata of a ledger response (\<open>domain/ledger/response.rs\<close>, \<open>parse_response_metadata\<close> and
  \<open>get_last_signed_time\<close> of \<open>services/pool/mod.rs\<close>) and the freshness threshold. Decoding of the
  response envelope by \<open>serde_json\<close> is a parameter.
\<close>

record ErrorResponse =
  err_req_id :: nat
  err_reason :: string

datatype 'a LedgerReply = LedgerReplyV0 'a | LedgerReplyV1 "'a list"

datatype 'a LedgerMessage =
    Ledger_ReqNACK ErrorResponse
  | Ledger_Reply "'a LedgerReply"
  | Ledger_Reject ErrorResponse

text \<open>\<open>Reply::result\<close>: a reply of the second format is taken from the first entry; \<open>remove(0)\<close> panics on none.\<close>

fun ledger_reply_result :: "'a LedgerReply \<Rightarrow> 'a IndyResult" where
  "ledger_reply_result (LedgerReplyV0 reply) = Ok reply"
| "ledger_reply_result (LedgerReplyV1 replies) = (case replies of [] \<Rightarrow> Panic | r # _ \<Rightarrow> Ok r)"

fun handle_response_message_type :: "'a LedgerMessage \<Rightarrow> 'a LedgerReply IndyResult" where
  "handle_response_message_type (Ledger_Reject response) = Err InvalidTransaction"
| "handle_response_message_type (Ledger_ReqNACK response) = Err InvalidTransaction"
| "handle_response_message_type (Ledger_Reply reply) = Ok reply"

record LedgerMetadata =
  lm_seq_no :: "nat option"
  lm_txn_time :: "nat option"
  lm_last_txn_time :: "nat option"
  lm_last_seq_no :: "nat option"

definition json_path :: "json \<Rightarrow> string list \<Rightarrow> json" where
  "json_path v ks = foldl json_index v ks"

definition parse_transaction_metadata_v0 :: "json \<Rightarrow> LedgerMetadata" where
  "parse_transaction_metadata_v0 message =
     \<lparr>lm_seq_no = as_u64 (json_index message ''seqNo''),
      lm_txn_time = as_u64 (json_index message ''txnTime''),
      lm_last_txn_time = as_u64 (json_path message [''state_proof'', ''multi_signature'', ''value'', ''timestamp'']),
      lm_last_seq_no = None\<rparr>"

definition parse_transaction_metadata_v1 :: "json \<Rightarrow> LedgerMetadata" where
  "parse_transaction_metadata_v1 message =
     \<lparr>lm_seq_no = as_u64 (json_path message [''txnMetadata'', ''seqNo'']),
      lm_txn_time = as_u64 (json_path message [''txnMetadata'', ''txnTime'']),
      lm_last_txn_time = as_u64 (json_path message [''multiSignature'', ''signedState'', ''stateMetadata'', ''timestamp'']),
      lm_last_seq_no = None\<rparr>"

definition parse_response_metadata :: "(string \<Rightarrow> json LedgerMessage option) \<Rightarrow> string \<Rightarrow> LedgerMetadata IndyResult" where
  "parse_response_metadata serde response =
     bind_outcome (ok_or (serde response) InvalidTransaction) (\<lambda>message.
     bind_outcome (handle_response_message_type message) (\<lambda>response_object.
     bind_outcome (ledger_reply_result response_object) (\<lambda>response_result.
       (case as_str (json_index response_result ''ver'') of
          None \<Rightarrow> Ok (parse_transaction_metadata_v0 response_result)
        | Some v \<Rightarrow>
            if v = ''1'' then Ok (parse_transaction_metadata_v1 response_result)
            else Err InvalidTransaction))))"

text \<open>A panic of the parser is a panic here too; an error is dropped.\<close>

definition get_last_signed_time :: "(string \<Rightarrow> json LedgerMessage option) \<Rightarrow> string \<Rightarrow> nat option IndyResult" where
  "get_last_signed_time serde response =
     (case parse_response_metadata serde response of
        Ok resp \<Rightarrow> Ok (lm_last_txn_time resp)
      | Err _ \<Rightarrow> Ok None
      | Panic \<Rightarrow> Panic)"

definition set_freshness_threshold :: "nat \<Rightarrow> nat" where
  "set_freshness_threshold threshold = max threshold 300"

lemma ledger_reply_result_total: "reply \<noteq> LedgerReplyV1 [] \<Longrightarrow> \<exists>v. ledger_reply_result reply = Ok v"
  by (cases reply rule: ledger_reply_result.cases) (auto split: list.splits)

text \<open>
  Reading the metadata of a response panics exactly for a reply of the second format without any
  result; every other response, malformed or refused ones included, gives metadata or
  \<open>InvalidTransaction\<close>.
\<close>

theorem response_metadata_outcomes:
  "if serde r = Some (Ledger_Reply (LedgerReplyV1 [])) then parse_response_metadata serde r = Panic
   else parse_response_metadata serde r = Err InvalidTransaction \<or> is_ok (parse_response_metadata serde r)"
proof (cases "serde r")
  case None
  then show ?thesis by (simp add: parse_response_metadata_def)
next
  case (Some m)
  show ?thesis
  proof (cases "\<exists>reply. m = Ledger_Reply reply \<and> reply \<noteq> LedgerReplyV1 []")
    case True
    then obtain reply v where m: "m = Ledger_Reply reply" "reply \<noteq> LedgerReplyV1 []" "ledger_reply_result reply = Ok v"
      using ledger_reply_result_total by blast
    with Some show ?thesis
      by (cases "as_str (json_index v ''ver'')") (simp_all add: parse_response_metadata_def)
  next
    case False
    with Some show ?thesis
      by (cases m rule: handle_response_message_type.cases) (auto simp: parse_response_metadata_def)
  qed
qed

end
