(* ===== verification/Request_Handler.thy ===== *)
theory Request_Handler
  imports Pool_Events Ledger_Response
begin

text \<open>
  The state machine of one request (\<open>services/pool/request_handler.rs\<close>): a request is sent to one
  node, to a quorum, to all nodes or to the nodes of a catch-up, and the machine collects answers
  and timeouts until it can answer the user or report an event to the pool. A step returns the new
  state, the event for the pool, and the calls it makes in their order: events for the networker and
  acknowledgements for the user's commands. The directory of the pool is threaded through the steps
  that read or write the ledger cache.

  JSON decoding and printing, the verification of state proofs, the iteration order of hash
  collections and the clock are parameters.
\<close>

section \<open>Environment and effects\<close>

type_synonym VerKey = bytes
type_synonym Generator = bytes

record request_env = catchup_env +
  json_parse :: "string \<Rightarrow> json option"
  nodes_parse :: "string \<Rightarrow> string list option"
  json_to_string :: "json \<Rightarrow> string"
  ledger_message :: "string \<Rightarrow> json LedgerMessage option"
  parse_reply_proofs :: "json \<Rightarrow> string \<Rightarrow> (ParsedSP list, unit) outcome"
  verify_parsed_sp :: "ParsedSP list \<Rightarrow> (string, VerKey option) hmap \<Rightarrow> nat \<Rightarrow> Generator \<Rightarrow> bool IndyResult"
  node_rank :: "string \<Rightarrow> nat"
  default_generator :: Generator
  freshness_threshold :: nat

datatype effect =
    Net NetworkerEvent
  | SubmitAck int "string IndyResult"

section \<open>States\<close>

record ConsensusState =
  co_denied_nodes :: "string hset"
  co_replies :: "(json, string hset) hmap"
  co_timeout_nodes :: "string hset"

record CatchupConsensusState =
  cc_replies :: votes
  cc_merkle_tree :: MerkleTree

record CatchupSingleState =
  cs_target_mt_root :: bytes
  cs_target_mt_size :: nat
  cs_merkle_tree :: MerkleTree
  cs_req_id :: string

record NodeResponse =
  nr_raw_msg :: string
  nr_node_alias :: string
  nr_timestamp :: nat

record SingleState =
  si_denied_nodes :: "string hset"
  si_replies :: "(json, NodeResponse list) hmap"
  si_timeout_nodes :: "string hset"

record FullState =
  accum_reply :: "json option"
  nodes_to_send :: "string list option"

datatype RequestState =
    Start
  | Single SingleState
  | Consensus ConsensusState
  | CatchupSingle CatchupSingleState
  | CatchupConsensus CatchupConsensusState
  | Full FullState
  | Finish

record RequestSM =
  sm_f :: nat
  sm_cmd_ids :: "int list"
  sm_nodes :: "(string, VerKey option) hmap"
  sm_generator :: Generator
  sm_pool_name :: string
  sm_timeout :: int
  sm_extended_timeout :: int
  sm_state :: RequestState

definition RequestSM_new :: "'e request_env_scheme \<Rightarrow> nat \<Rightarrow> int list \<Rightarrow> (string, VerKey option) hmap \<Rightarrow>
    Generator option \<Rightarrow> string \<Rightarrow> int \<Rightarrow> int \<Rightarrow> RequestSM" where
  "RequestSM_new E f cmd_ids nodes gen pool_name timeout extended_timeout =
     \<lparr>sm_f = f, sm_cmd_ids = cmd_ids, sm_nodes = nodes,
      sm_generator = (case gen of Some g \<Rightarrow> g | None \<Rightarrow> default_generator E),
      sm_pool_name = pool_name, sm_timeout = timeout, sm_extended_timeout = extended_timeout, sm_state = Start\<rparr>"

definition single_from_start :: SingleState where
  "single_from_start = \<lparr>si_denied_nodes = [], si_replies = [], si_timeout_nodes = []\<rparr>"

definition consensus_from_start :: ConsensusState where
  "consensus_from_start = \<lparr>co_denied_nodes = [], co_replies = [], co_timeout_nodes = []\<rparr>"

definition catchup_consensus_from :: "MerkleTree \<Rightarrow> CatchupConsensusState" where
  "catchup_consensus_from mt = \<lparr>cc_replies = [], cc_merkle_tree = mt\<rparr>"

definition catchup_single_from :: "MerkleTree \<Rightarrow> bytes \<Rightarrow> nat \<Rightarrow> string \<Rightarrow> CatchupSingleState" where
  "catchup_single_from mt root n req_id =
     \<lparr>cs_target_mt_root = root, cs_target_mt_size = n, cs_merkle_tree = mt, cs_req_id = req_id\<rparr>"

definition full_from :: "string list option \<Rightarrow> FullState" where
  "full_from to_send = \<lparr>accum_reply = None, nodes_to_send = to_send\<rparr>"

section \<open>Replies to the user\<close>

definition send_replies :: "int list \<Rightarrow> string IndyResult \<Rightarrow> effect list" where
  "send_replies cmd_ids msg = map (\<lambda>i. SubmitAck i msg) cmd_ids"

definition send_ok_replies :: "int list \<Rightarrow> string \<Rightarrow> effect list" where
  "send_ok_replies cmd_ids msg = send_replies cmd_ids (Ok msg)"

definition finish_request :: "int list \<Rightarrow> effect list" where
  "finish_request cmd_ids = send_replies cmd_ids (Err PoolTerminated)"

text \<open>The result of a message with and without the parts that differ between nodes.\<close>

definition get_msg_result_without_state_proof :: "'e request_env_scheme \<Rightarrow> string \<Rightarrow> (json \<times> json) IndyResult" where
  "get_msg_result_without_state_proof E msg =
     bind_outcome (ok_or (json_parse E msg) InvalidStructure)
       (\<lambda>v. let msg_result = json_index v ''result'';
                without_proof = json_remove ''state_proof'' msg_result
            in Ok (msg_result,
                   (case without_proof of
                      JObject kvs \<Rightarrow>
                        (case json_index without_proof ''data'' of
                           JObject dkvs \<Rightarrow>
                             JObject (AList.update ''data'' (json_remove ''stateProofFrom'' (JObject dkvs)) kvs)
                         | _ \<Rightarrow> without_proof)
                    | _ \<Rightarrow> without_proof)))"

text \<open>A check that panics, or that does not return, leaves the step without a result: both are \<^const>\<open>Panic\<close>.\<close>

definition check_state_proof :: "'e request_env_scheme \<Rightarrow> json \<Rightarrow> nat \<Rightarrow> Generator \<Rightarrow> (string, VerKey option) hmap \<Rightarrow> string \<Rightarrow> bool IndyResult" where
  "check_state_proof E msg_result f gen bls_keys raw_msg =
     (case parse_reply_proofs E msg_result raw_msg of
        Ok parsed_sps \<Rightarrow> verify_parsed_sp E parsed_sps bls_keys f gen
      | Err _ \<Rightarrow> Ok False
      | Panic \<Rightarrow> Panic)"

section \<open>Requests to a quorum\<close>

definition consensus_reachable :: "profile \<Rightarrow> ConsensusState \<Rightarrow> nat \<Rightarrow> nat \<Rightarrow> bool IndyResult" where
  "consensus_reachable p state f total_nodes_cnt =
     (let sizes = map (\<lambda>(_, s). length s) (co_replies state);
          rep_no = sum_list sizes;
          max_no = foldr max sizes 0
      in bind_outcome (usize_add p max_no total_nodes_cnt) (\<lambda>a.
         bind_outcome (usize_sub p a rep_no) (\<lambda>b.
         bind_outcome (usize_sub p b (length (co_timeout_nodes state))) (\<lambda>c.
         bind_outcome (usize_sub p c (length (co_denied_nodes state))) (\<lambda>d. Ok (d > f))))))"

definition entry_set :: "'k \<Rightarrow> ('k, 'a list) hmap \<Rightarrow> 'a list" where
  "entry_set k m = (case hmap_get k m of None \<Rightarrow> [] | Some s \<Rightarrow> s)"

type_synonym step_result = "(RequestState \<times> PoolEvent option \<times> effect list) IndyResult"

definition consensus_reply :: "'e request_env_scheme \<Rightarrow> RequestSM \<Rightarrow> ConsensusState \<Rightarrow> string \<Rightarrow> string \<Rightarrow> string \<Rightarrow> step_result" where
  "consensus_reply E sm state raw_msg node_alias req_id =
     (case get_msg_result_without_state_proof E raw_msg of
        Ok (_, result_without_proof) \<Rightarrow>
          (let nodes_set = hset_insert node_alias (entry_set result_without_proof (co_replies state));
               state' = state\<lparr>co_replies := hmap_insert result_without_proof nodes_set (co_replies state)\<rparr>;
               cnt = length nodes_set
           in if cnt > sm_f sm then
                Ok (Finish, None, send_ok_replies (sm_cmd_ids sm) raw_msg @ [Net (Ne_CleanTimeout req_id None)])
              else
                bind_outcome (consensus_reachable (build_profile E) state' (sm_f sm) (length (sm_nodes sm)))
                  (\<lambda>reachable.
                     if reachable then Ok (Consensus state', None, [Net (Ne_CleanTimeout req_id (Some node_alias))])
                     else Ok (Finish, None, send_replies (sm_cmd_ids sm) (Err PoolTimeout) @ [Net (Ne_CleanTimeout req_id None)])))
      | _ \<Rightarrow>
          (let state' = state\<lparr>co_denied_nodes := hset_insert node_alias (co_denied_nodes state)\<rparr>
           in if length (co_denied_nodes state') + length (co_replies state') = length (sm_nodes sm)
              then Ok (Finish, None, send_replies (sm_cmd_ids sm) (Err PoolTimeout))
              else Ok (Consensus state', None, [])))"

definition consensus_timeout :: "'e request_env_scheme \<Rightarrow> RequestSM \<Rightarrow> ConsensusState \<Rightarrow> string \<Rightarrow> string \<Rightarrow> step_result" where
  "consensus_timeout E sm state req_id node_alias =
     (let state' = state\<lparr>co_timeout_nodes := hset_insert node_alias (co_timeout_nodes state)\<rparr>
      in bind_outcome (consensus_reachable (build_profile E) state' (sm_f sm) (length (sm_nodes sm)))
           (\<lambda>reachable.
              if reachable then Ok (Consensus state', None, [Net (Ne_CleanTimeout req_id (Some node_alias))])
              else Ok (Finish, None, send_replies (sm_cmd_ids sm) (Err PoolTimeout) @ [Net (Ne_CleanTimeout req_id None)])))"

section \<open>Requests to one node\<close>

definition single_reachable :: "SingleState \<Rightarrow> nat \<Rightarrow> bool" where
  "single_reachable state total_nodes_cnt =
     (length (si_timeout_nodes state) + length (si_denied_nodes state) +
      sum_list (map (\<lambda>(_, s). length s) (si_replies state)) < total_nodes_cnt)"

definition try_to_continue :: "SingleState \<Rightarrow> string \<Rightarrow> string \<Rightarrow> int list \<Rightarrow> nat \<Rightarrow> int \<Rightarrow> RequestState \<times> effect list" where
  "try_to_continue state req_id node_alias cmd_ids nodes_cnt timeout =
     (if single_reachable state nodes_cnt then
        (Single state, [Net (Ne_Resend req_id timeout), Net (Ne_Resend req_id timeout),
                        Net (Ne_CleanTimeout req_id (Some node_alias))])
      else (Finish, send_replies cmd_ids (Err PoolTimeout) @ [Net (Ne_CleanTimeout req_id None)]))"

definition single_continue :: "RequestSM \<Rightarrow> SingleState \<Rightarrow> string \<Rightarrow> string \<Rightarrow> step_result" where
  "single_continue sm state req_id node_alias =
     (let (s, effs) = try_to_continue state req_id node_alias (sm_cmd_ids sm) (length (sm_nodes sm)) (sm_timeout sm)
      in Ok (s, None, effs))"

text \<open>A hash set of responses compares them by the node only, so the response of a node is kept when it answers again.\<close>

definition response_insert :: "NodeResponse \<Rightarrow> NodeResponse list \<Rightarrow> NodeResponse list" where
  "response_insert r s = (if nr_node_alias r \<in> nr_node_alias ` set s then s else s @ [r])"

definition soonest_msg :: "'e request_env_scheme \<Rightarrow> string \<Rightarrow> NodeResponse list \<Rightarrow> string" where
  "soonest_msg E raw_msg s =
     (case max_by_key nr_timestamp (sort_key (\<lambda>r. node_rank E (nr_node_alias r)) s) of
        Some r \<Rightarrow> nr_raw_msg r
      | None \<Rightarrow> raw_msg)"

definition single_reply :: "'e request_env_scheme \<Rightarrow> nat \<Rightarrow> RequestSM \<Rightarrow> SingleState \<Rightarrow> string \<Rightarrow> string \<Rightarrow> string \<Rightarrow> step_result" where
  "single_reply E cur_time sm state raw_msg node_alias req_id =
     (let state = state\<lparr>si_timeout_nodes := hset_remove node_alias (si_timeout_nodes state)\<rparr>
      in case get_msg_result_without_state_proof E raw_msg of
           Ok (result, result_without_proof) \<Rightarrow>
             bind_outcome (get_last_signed_time (ledger_message E) raw_msg)
               (\<lambda>signed.
                  let last_write_time = (case signed of Some t \<Rightarrow> t | None \<Rightarrow> 0);
                      responses = response_insert
                        \<lparr>nr_raw_msg = raw_msg, nr_node_alias = node_alias, nr_timestamp = last_write_time\<rparr>
                        (entry_set result_without_proof (si_replies state));
                      state' = state\<lparr>si_replies := hmap_insert result_without_proof responses (si_replies state)\<rparr>;
                      cnt = length responses;
                      soonest = soonest_msg E raw_msg responses
                  in bind_outcome
                       (if cnt > sm_f sm then Ok True
                        else
                          bind_outcome (check_state_proof E result (sm_f sm) (sm_generator sm) (sm_nodes sm) raw_msg)
                            (\<lambda>proved.
                               if proved then
                                 bind_outcome (usize_add (build_profile E) (freshness_threshold E) last_write_time)
                                   (\<lambda>bound. Ok (cur_time \<le> bound))
                               else Ok False))
                       (\<lambda>accepted.
                          if accepted then
                            Ok (Finish, None, Net (Ne_CleanTimeout req_id None) #
                                  send_ok_replies (sm_cmd_ids sm) (if cnt > sm_f sm then soonest else raw_msg))
                          else single_continue sm state' req_id node_alias))
         | _ \<Rightarrow>
             single_continue sm (state\<lparr>si_denied_nodes := hset_insert node_alias (si_denied_nodes state)\<rparr>) req_id node_alias)"

section \<open>Requests to all nodes\<close>

definition full_request_handle_consensus_state :: "'e request_env_scheme \<Rightarrow> RequestSM \<Rightarrow> FullState \<Rightarrow> string \<Rightarrow> string \<Rightarrow> string \<Rightarrow> step_result" where
  "full_request_handle_consensus_state E sm state req_id node_alias node_result =
     bind_outcome
       (case accum_reply state of
          None \<Rightarrow> Ok [(node_alias, JString node_result)]
        | Some (JObject kvs) \<Rightarrow> Ok (btree_insert node_alias (JString node_result) kvs)
        | Some _ \<Rightarrow> Panic)
       (\<lambda>kvs.
          let state' = state\<lparr>accum_reply := Some (JObject kvs)\<rparr>;
              required_reply_cnt = (case nodes_to_send state' of Some ns \<Rightarrow> length ns | None \<Rightarrow> length (sm_nodes sm));
              reply_cnt = length kvs
          in if reply_cnt = required_reply_cnt then
               Ok (Finish, None, Net (Ne_CleanTimeout req_id None) #
                     send_ok_replies (sm_cmd_ids sm) (json_to_string E (JObject kvs)))
             else Ok (Full state', None, [Net (Ne_CleanTimeout req_id (Some node_alias))]))"

section \<open>Catch-up\<close>

definition process_catchup_target :: "'e request_env_scheme \<Rightarrow> string \<Rightarrow> nat \<Rightarrow> string list option \<Rightarrow> string \<Rightarrow>
    CatchupConsensusState \<Rightarrow> nat \<Rightarrow> nat \<Rightarrow> pool_dir \<Rightarrow>
    CatchupConsensusState \<times> pool_dir \<times> (bool \<times> PoolEvent option) IndyResult" where
  "process_catchup_target E merkle_root txn_seq_no proofs node_alias state f nodes_cnt d =
     (let key = (merkle_root, txn_seq_no, proofs);
          state' = state\<lparr>cc_replies := hmap_insert key (hset_insert node_alias (entry_set key (cc_replies state))) (cc_replies state)\<rparr>;
          (d', r) = check_nodes_responses_on_status E (cc_replies state') (cc_merkle_tree state') nodes_cnt f d
      in (state', d',
          (case r of
             Ok InProgress \<Rightarrow> Ok (False, None)
           | Ok (NotNeeded merkle_tree) \<Rightarrow> Ok (True, Some (Pe_Synced merkle_tree))
           | Ok (Restart merkle_tree) \<Rightarrow> Ok (False, Some (Pe_CatchupRestart merkle_tree))
           | Ok (ShouldBeStarted root n merkle_tree) \<Rightarrow> Ok (True, Some (Pe_CatchupTargetFound root n merkle_tree))
           | Err err \<Rightarrow> Ok (True, Some (Pe_CatchupTargetNotFound err))
           | Panic \<Rightarrow> Panic)))"

definition catchup_target_handle_consensus_state :: "'e request_env_scheme \<Rightarrow> RequestSM \<Rightarrow> CatchupConsensusState \<Rightarrow>
    string \<Rightarrow> nat \<Rightarrow> string list option \<Rightarrow> string \<Rightarrow> string \<Rightarrow> pool_dir \<Rightarrow> pool_dir \<times> step_result" where
  "catchup_target_handle_consensus_state E sm state merkle_root sz cons_proof node_alias req_id d =
     (let (state', d', r) = process_catchup_target E merkle_root sz cons_proof node_alias state (sm_f sm) (length (sm_nodes sm)) d
      in (d', bind_outcome r
            (\<lambda>(finished, result).
               if finished then Ok (Finish, result, [Net (Ne_CleanTimeout req_id None)])
               else
                 (case result of
                    Some (Pe_CatchupRestart merkle_tree) \<Rightarrow>
                      Ok (CatchupConsensus state', Some (Pe_CatchupRestart merkle_tree), [Net (Ne_CleanTimeout req_id None)])
                  | _ \<Rightarrow> Ok (CatchupConsensus state', result, [Net (Ne_CleanTimeout req_id (Some node_alias))])))))"

lemma hmap_remove_shorter: "hmap_get k m = Some v \<Longrightarrow> length (hmap_remove k m) < length m"
proof (induction m)
  case (Cons e m)
  have "length (hmap_remove k m) \<le> length m" by (simp add: hmap_remove_def length_delete_le)
  with Cons show ?case by (cases e) (auto split: if_splits)
qed simp

text \<open>
  The transactions of a catch-up reply are appended in ascending order of their numbers. A number
  whose decimal form is not a key of the map (\<open>01\<close> for 1, say) makes the \<open>unwrap\<close> panic.
\<close>

function catchup_reply_loop :: "'e request_env_scheme \<Rightarrow> CatchupRep \<Rightarrow> MerkleTree \<Rightarrow> bytes list \<Rightarrow>
    (MerkleTree \<times> bytes list) IndyResult" where
  "catchup_reply_loop E rep merkle txns_to_drop =
     (if txns rep = [] then Ok (merkle, txns_to_drop)
      else
        (case min_tx rep of
           Err e \<Rightarrow> Err e
         | Panic \<Rightarrow> Panic
         | Ok key \<Rightarrow>
             (case hmap_get (usize_to_string key) (txns rep) of
                None \<Rightarrow> Panic
              | Some t \<Rightarrow>
                  (case rmp_to_vec (codecs E) t of
                     None \<Rightarrow> Err InvalidStructure
                   | Some b \<Rightarrow>
                       (case append (sha E) merkle b of
                          Err e \<Rightarrow> Err e
                        | Panic \<Rightarrow> Panic
                        | Ok merkle' \<Rightarrow>
                            catchup_reply_loop E (rep\<lparr>txns := hmap_remove (usize_to_string key) (txns rep)\<rparr>)
                              merkle' (txns_to_drop @ [b]))))))"
  by pat_completeness auto
termination
  by (relation "measure (\<lambda>(E, rep, merkle, ts). length (txns rep))") (auto dest: hmap_remove_shorter)

declare catchup_reply_loop.simps [simp del]

definition process_catchup_reply :: "'e request_env_scheme \<Rightarrow> CatchupRep \<Rightarrow> MerkleTree \<Rightarrow> bytes \<Rightarrow> nat \<Rightarrow> pool_dir \<Rightarrow>
    pool_dir \<times> MerkleTree IndyResult" where
  "process_catchup_reply E rep merkle target_mt_root target_mt_size d =
     (case bind_outcome (catchup_reply_loop E rep merkle [])
             (\<lambda>(merkle', ts). bind_outcome (check_cons_proofs E merkle' (consProof rep) target_mt_root target_mt_size)
                (\<lambda>_. Ok (merkle', ts))) of
        Ok (merkle', ts) \<Rightarrow>
          (let (d', r) = dump_new_txns (codecs E) ts d
           in (d', bind_outcome r (\<lambda>_. Ok merkle')))
      | Err e \<Rightarrow> (d, Err e)
      | Panic \<Rightarrow> (d, Panic))"

section \<open>The state machine\<close>

definition start_full_request :: "'e request_env_scheme \<Rightarrow> RequestSM \<Rightarrow> string \<Rightarrow> string \<Rightarrow> int option \<Rightarrow> string option \<Rightarrow> step_result" where
  "start_full_request E sm msg req_id local_timeout to_send =
     (let timeout = (case local_timeout of Some t \<Rightarrow> t | None \<Rightarrow> sm_extended_timeout sm)
      in case to_send of
           Some text \<Rightarrow>
             (case nodes_parse E text of
                Some ns \<Rightarrow>
                  (if ns \<noteq> [] \<and> list_all (\<lambda>node. hmap_contains node (sm_nodes sm)) ns then
                     Ok (Full (full_from (Some ns)), None, [Net (Ne_SendAllRequest msg req_id timeout (Some ns))])
                   else Ok (Finish, None, send_replies (sm_cmd_ids sm) (Err InvalidStructure)))
              | None \<Rightarrow> Ok (Finish, None, send_replies (sm_cmd_ids sm) (Err InvalidStructure)))
         | None \<Rightarrow> Ok (Full (full_from None), None, [Net (Ne_SendAllRequest msg req_id timeout None)]))"

fun start_event :: "'e request_env_scheme \<Rightarrow> RequestSM \<Rightarrow> RequestEvent \<Rightarrow> step_result" where
  "start_event E sm (Re_LedgerStatus ls _ (Some merkle)) =
     bind_outcome (unwrap_opt (msg_to_string E (Msg_LedgerStatus ls)))
       (\<lambda>text. Ok (CatchupConsensus (catchup_consensus_from merkle), None,
          [Net (Ne_SendAllRequest text (merkleRoot ls) (sm_extended_timeout sm) None)]))"
| "start_event E sm (Re_CatchupReq merkle target_sz target_root) =
     (case build_catchup_req E merkle target_sz of
        Ok (Some (req_id, req_json)) \<Rightarrow>
          Ok (CatchupSingle (catchup_single_from merkle target_root target_sz req_id), None,
              [Net (Ne_SendOneRequest req_json req_id (sm_timeout sm))])
      | Ok None \<Rightarrow> Ok (Finish, Some (Pe_Synced merkle), [])
      | Err e \<Rightarrow> Ok (Finish, None, send_replies (sm_cmd_ids sm) (Err e))
      | Panic \<Rightarrow> Panic)"
| "start_event E sm (Re_CustomSingleRequest msg req_id) =
     Ok (Single single_from_start, None,
         [Net (Ne_SendOneRequest msg req_id (sm_timeout sm)), Net (Ne_Resend req_id (sm_timeout sm))])"
| "start_event E sm (Re_CustomFullRequest msg req_id local_timeout to_send) =
     start_full_request E sm msg req_id local_timeout to_send"
| "start_event E sm (Re_CustomConsensusRequest msg req_id) =
     Ok (Consensus consensus_from_start, None, [Net (Ne_SendAllRequest msg req_id (sm_timeout sm) None)])"
| "start_event E sm _ = Ok (Start, None, [])"

fun consensus_event :: "'e request_env_scheme \<Rightarrow> RequestSM \<Rightarrow> ConsensusState \<Rightarrow> RequestEvent \<Rightarrow> step_result" where
  "consensus_event E sm state (Re_Reply _ raw_msg node_alias req_id) = consensus_reply E sm state raw_msg node_alias req_id"
| "consensus_event E sm state (Re_ReqNACK _ raw_msg node_alias req_id) = consensus_reply E sm state raw_msg node_alias req_id"
| "consensus_event E sm state (Re_Reject _ raw_msg node_alias req_id) = consensus_reply E sm state raw_msg node_alias req_id"
| "consensus_event E sm state (Re_ReqACK _ _ node_alias req_id) =
     Ok (Consensus state, None, [Net (Ne_ExtendTimeout req_id node_alias (sm_extended_timeout sm))])"
| "consensus_event E sm state (Re_Timeout req_id node_alias) = consensus_timeout E sm state req_id node_alias"
| "consensus_event E sm state Re_Terminate = Ok (Finish, None, finish_request (sm_cmd_ids sm))"
| "consensus_event E sm state _ = Ok (Consensus state, None, [])"

fun single_event :: "'e request_env_scheme \<Rightarrow> nat \<Rightarrow> RequestSM \<Rightarrow> SingleState \<Rightarrow> RequestEvent \<Rightarrow> step_result" where
  "single_event E t sm state (Re_Reply _ raw_msg node_alias req_id) = single_reply E t sm state raw_msg node_alias req_id"
| "single_event E t sm state (Re_ReqNACK _ raw_msg node_alias req_id) = single_reply E t sm state raw_msg node_alias req_id"
| "single_event E t sm state (Re_Reject _ raw_msg node_alias req_id) = single_reply E t sm state raw_msg node_alias req_id"
| "single_event E t sm state (Re_ReqACK _ _ node_alias req_id) =
     Ok (Single state, None, [Net (Ne_ExtendTimeout req_id node_alias (sm_extended_timeout sm))])"
| "single_event E t sm state (Re_Timeout req_id node_alias) =
     single_continue sm (state\<lparr>si_timeout_nodes := hset_insert node_alias (si_timeout_nodes state)\<rparr>) req_id node_alias"
| "single_event E t sm state Re_Terminate = Ok (Finish, None, finish_request (sm_cmd_ids sm))"
| "single_event E t sm state _ = Ok (Single state, None, [])"

fun catchup_consensus_event :: "'e request_env_scheme \<Rightarrow> RequestSM \<Rightarrow> CatchupConsensusState \<Rightarrow> RequestEvent \<Rightarrow> pool_dir \<Rightarrow>
    pool_dir \<times> step_result" where
  "catchup_consensus_event E sm state (Re_LedgerStatus ls (Some node_alias) _) d =
     catchup_target_handle_consensus_state E sm state (merkleRoot ls) (txnSeqNo ls) None node_alias (merkleRoot ls) d"
| "catchup_consensus_event E sm state (Re_ConsistencyProof cp node_alias) d =
     catchup_target_handle_consensus_state E sm state (newMerkleRoot cp) (cp_seqNoEnd cp) (Some (hashes cp))
       node_alias (oldMerkleRoot cp) d"
| "catchup_consensus_event E sm state (Re_Timeout req_id node_alias) d =
     catchup_target_handle_consensus_state E sm state ''timeout'' 0 None node_alias req_id d"
| "catchup_consensus_event E sm state Re_Terminate d = (d, Ok (Finish, None, finish_request (sm_cmd_ids sm)))"
| "catchup_consensus_event E sm state _ d = (d, Ok (CatchupConsensus state, None, []))"

fun catchup_single_event :: "'e request_env_scheme \<Rightarrow> RequestSM \<Rightarrow> CatchupSingleState \<Rightarrow> RequestEvent \<Rightarrow> pool_dir \<Rightarrow>
    pool_dir \<times> step_result" where
  "catchup_single_event E sm state (Re_CatchupRep cr node_alias) d =
     (let (d', r) = process_catchup_reply E cr (cs_merkle_tree state) (cs_target_mt_root state) (cs_target_mt_size state) d
      in (d', (case r of
                 Ok merkle \<Rightarrow> Ok (Finish, Some (Pe_Synced merkle), [Net (Ne_CleanTimeout (cs_req_id state) None)])
               | Err _ \<Rightarrow> Ok (CatchupSingle state, None,
                   [Net (Ne_Resend (cs_req_id state) (sm_timeout sm)), Net (Ne_CleanTimeout (cs_req_id state) (Some node_alias))])
               | Panic \<Rightarrow> Panic)))"
| "catchup_single_event E sm state (Re_Timeout req_id node_alias) d =
     (d, Ok (CatchupSingle state, None,
        [Net (Ne_Resend (cs_req_id state) (sm_timeout sm)), Net (Ne_CleanTimeout req_id (Some node_alias))]))"
| "catchup_single_event E sm state Re_Terminate d = (d, Ok (Finish, None, finish_request (sm_cmd_ids sm)))"
| "catchup_single_event E sm state _ d = (d, Ok (CatchupSingle state, None, []))"

fun full_event :: "'e request_env_scheme \<Rightarrow> RequestSM \<Rightarrow> FullState \<Rightarrow> RequestEvent \<Rightarrow> step_result" where
  "full_event E sm state (Re_Reply _ raw_msg node_alias req_id) =
     full_request_handle_consensus_state E sm state req_id node_alias raw_msg"
| "full_event E sm state (Re_ReqNACK _ raw_msg node_alias req_id) =
     full_request_handle_consensus_state E sm state req_id node_alias raw_msg"
| "full_event E sm state (Re_Reject _ raw_msg node_alias req_id) =
     full_request_handle_consensus_state E sm state req_id node_alias raw_msg"
| "full_event E sm state (Re_Timeout req_id node_alias) =
     full_request_handle_consensus_state E sm state req_id node_alias ''timeout''"
| "full_event E sm state Re_Terminate = Ok (Finish, None, finish_request (sm_cmd_ids sm))"
| "full_event E sm state _ = Ok (Full state, None, [])"

definition handle_event :: "'e request_env_scheme \<Rightarrow> nat \<Rightarrow> RequestSM \<Rightarrow> RequestEvent \<Rightarrow> pool_dir \<Rightarrow>
    pool_dir \<times> (RequestSM \<times> PoolEvent option \<times> effect list) IndyResult" where
  "handle_event E t sm re d =
     (let (d', r) =
        (case sm_state sm of
           Start \<Rightarrow> (d, start_event E sm re)
         | Consensus state \<Rightarrow> (d, consensus_event E sm state re)
         | Single state \<Rightarrow> (d, single_event E t sm state re)
         | CatchupConsensus state \<Rightarrow> catchup_consensus_event E sm state re d
         | CatchupSingle state \<Rightarrow> catchup_single_event E sm state re d
         | Full state \<Rightarrow> (d, full_event E sm state re)
         | Finish \<Rightarrow> (d, Ok (Finish, None, [])))
      in (d', bind_outcome r (\<lambda>(state, event, effs). Ok (sm\<lparr>sm_state := state\<rparr>, event, effs))))"

definition sm_is_terminal :: "RequestSM \<Rightarrow> bool" where
  "sm_is_terminal sm = (case sm_state sm of Finish \<Rightarrow> True | _ \<Rightarrow> False)"

section \<open>The handler\<close>

text \<open>\<open>RequestHandlerImpl\<close> keeps the machine in an \<open>Option\<close>; it is taken out while an event is handled.\<close>

record RequestHandlerImpl =
  request_wrapper :: "RequestSM option"

definition handler_new :: "'e request_env_scheme \<Rightarrow> nat \<Rightarrow> int list \<Rightarrow> (string, VerKey option) hmap \<Rightarrow>
    Generator option \<Rightarrow> string \<Rightarrow> int \<Rightarrow> int \<Rightarrow> RequestHandlerImpl" where
  "handler_new E f cmd_ids nodes gen pool_name timeout extended_timeout =
     \<lparr>request_wrapper = Some (RequestSM_new E f cmd_ids nodes gen pool_name timeout extended_timeout)\<rparr>"

definition process_event :: "'e request_env_scheme \<Rightarrow> nat \<Rightarrow> RequestHandlerImpl \<Rightarrow> RequestEvent option \<Rightarrow> pool_dir \<Rightarrow>
    pool_dir \<times> (RequestHandlerImpl \<times> PoolEvent option \<times> effect list) IndyResult" where
  "process_event E t h ore d =
     (case ore of
        None \<Rightarrow> (d, Ok (h, None, []))
      | Some re \<Rightarrow>
          (case request_wrapper h of
             None \<Rightarrow> (d, Ok (h\<lparr>request_wrapper := None\<rparr>, None, []))
           | Some w \<Rightarrow>
               (let (d', r) = handle_event E t w re d
                in (d', bind_outcome r (\<lambda>(rw, res, effs). Ok (h\<lparr>request_wrapper := Some rw\<rparr>, res, effs))))))"

definition is_terminal :: "RequestHandlerImpl \<Rightarrow> bool" where
  "is_terminal h = (case request_wrapper h of Some w \<Rightarrow> sm_is_terminal w | None \<Rightarrow> True)"

end
