(* ===== verification/Request_Properties.thy ===== *)
theory Request_Properties
  imports Request_Handler
begin

text \<open>
  Properties of the request state machine: every command is acknowledged once, a positive answer is
  backed by a quorum or by a verified state proof, the machine moves only as its documentation says,
  and a catch-up reply extends the ledger towards the agreed target. The first part states what the
  pool relies on when it drives a handler as a locale; the runs of the handler are its interpretation.
\<close>

section \<open>Acknowledgements\<close>

fun is_ack :: "effect \<Rightarrow> bool" where
  "is_ack (SubmitAck _ _) = True"
| "is_ack (Net _) = False"

abbreviation acks :: "effect list \<Rightarrow> effect list" where
  "acks effs \<equiv> filter is_ack effs"

lemma acks_send_replies [simp]:
  "acks (send_replies ids m) = send_replies ids m"
  "acks (send_ok_replies ids s) = send_replies ids (Ok s)"
  "acks (finish_request ids) = send_replies ids (Err PoolTerminated)"
  by (simp_all add: send_replies_def send_ok_replies_def finish_request_def)

text \<open>A state of a user's request answers all commands when it finishes and none before.\<close>

definition answers_at_end :: "int list \<Rightarrow> RequestState \<Rightarrow> effect list \<Rightarrow> bool" where
  "answers_at_end ids s effs = (if s = Finish then \<exists>m. acks effs = send_replies ids m else acks effs = [])"

lemma answers_at_end_simps [simp]:
  "answers_at_end ids Finish (finish_request ids)"
  "s \<noteq> Finish \<Longrightarrow> answers_at_end ids s []"
  "s \<noteq> Finish \<Longrightarrow> answers_at_end ids s [Net ne]"
  by (auto simp: answers_at_end_def)

lemma consensus_answers:
  "consensus_event E sm st re = Ok (s, pe, effs) \<Longrightarrow> answers_at_end (sm_cmd_ids sm) s effs"
  by (cases re)
    (auto simp: answers_at_end_def consensus_reply_def consensus_timeout_def Let_def
      split: outcome.splits prod.splits if_splits)

lemma single_continue_answers:
  "single_continue sm st rid node = Ok (s, pe, effs) \<Longrightarrow> answers_at_end (sm_cmd_ids sm) s effs"
  by (auto simp: answers_at_end_def single_continue_def try_to_continue_def split: if_splits)

lemma single_answers:
  "single_event E t sm st re = Ok (s, pe, effs) \<Longrightarrow> answers_at_end (sm_cmd_ids sm) s effs"
proof -
  have rep: "single_reply E t sm st raw node rid = Ok (s, pe, effs) \<Longrightarrow> answers_at_end (sm_cmd_ids sm) s effs" for raw node rid
    by (auto simp: single_reply_def Let_def split: outcome.splits prod.splits if_splits
        intro: single_continue_answers) (auto simp: answers_at_end_def)
  assume "single_event E t sm st re = Ok (s, pe, effs)"
  then show ?thesis
    by (cases re) (auto intro: rep single_continue_answers)
qed

lemma full_answers:
  "full_event E sm st re = Ok (s, pe, effs) \<Longrightarrow> answers_at_end (sm_cmd_ids sm) s effs"
  by (cases re)
    (auto simp: answers_at_end_def full_request_handle_consensus_state_def Let_def
      split: option.splits json.splits if_splits)

definition at_most_at_end :: "int list \<Rightarrow> RequestState \<Rightarrow> effect list \<Rightarrow> bool" where
  "at_most_at_end ids s effs = (acks effs = [] \<or> s = Finish \<and> (\<exists>m. acks effs = send_replies ids m))"

lemma answers_at_most: "answers_at_end ids s effs \<Longrightarrow> at_most_at_end ids s effs"
  by (auto simp: answers_at_end_def at_most_at_end_def split: if_splits)

lemma start_at_most: "start_event E sm re = Ok (s, pe, effs) \<Longrightarrow> at_most_at_end (sm_cmd_ids sm) s effs"
  by (cases "(E, sm, re)" rule: start_event.cases)
    (auto simp: at_most_at_end_def start_full_request_def Let_def split: outcome.splits option.splits if_splits)

lemma catchup_target_quiet:
  "catchup_target_handle_consensus_state E sm st r n p node rid d = (d', Ok (s, pe, effs)) \<Longrightarrow> acks effs = []"
  by (auto simp: catchup_target_handle_consensus_state_def split: prod.splits if_splits option.splits PoolEvent.splits)

lemma catchup_consensus_at_most:
  "catchup_consensus_event E sm st re d = (d', Ok (s, pe, effs)) \<Longrightarrow> at_most_at_end (sm_cmd_ids sm) s effs"
  by (cases "(E, sm, st, re, d)" rule: catchup_consensus_event.cases)
    (auto simp: at_most_at_end_def dest: catchup_target_quiet)

lemma catchup_single_at_most:
  "catchup_single_event E sm st re d = (d', Ok (s, pe, effs)) \<Longrightarrow> at_most_at_end (sm_cmd_ids sm) s effs"
  by (cases "(E, sm, st, re, d)" rule: catchup_single_event.cases)
    (auto simp: at_most_at_end_def split: prod.splits outcome.splits)

lemma handle_event_at_most:
  assumes "handle_event E t sm re d = (d', Ok (sm', pe, effs))"
  shows "at_most_at_end (sm_cmd_ids sm) (sm_state sm') effs"
  using assms
  by (auto simp: handle_event_def at_most_at_end_def
      split: prod.splits RequestState.splits
      dest: start_at_most consensus_answers [THEN answers_at_most] single_answers [THEN answers_at_most]
        full_answers [THEN answers_at_most] catchup_consensus_at_most catchup_single_at_most)

section \<open>What the pool relies on\<close>

fun run_steps :: "('h \<Rightarrow> 'i \<Rightarrow> ('h \<times> 'x list) IndyResult) \<Rightarrow> 'h \<Rightarrow> 'i list \<Rightarrow> ('h \<times> 'x list) IndyResult" where
  "run_steps step h [] = Ok (h, [])"
| "run_steps step h (i # inputs) =
     bind_outcome (step h i) (\<lambda>(h', xs).
     bind_outcome (run_steps step h' inputs) (\<lambda>(h'', ys). Ok (h'', xs @ ys)))"

text \<open>
  A handler: a terminal one stays as it is and does nothing more, and the answers of a step are one
  of the allowed rounds of answers and end the handler.
\<close>

locale acking_handler =
  fixes step :: "'h \<Rightarrow> 'i \<Rightarrow> ('h \<times> 'x list) IndyResult"
    and terminal :: "'h \<Rightarrow> bool"
    and answer :: "'x \<Rightarrow> bool"
    and rounds :: "'h \<Rightarrow> 'x list set"
  assumes absorbing: "terminal h \<Longrightarrow> step h i = Ok (h', xs) \<Longrightarrow> h' = h \<and> xs = []"
    and keeps_rounds: "step h i = Ok (h', xs) \<Longrightarrow> rounds h' = rounds h"
    and answer_ends: "step h i = Ok (h', xs) \<Longrightarrow> filter answer xs = [] \<or> terminal h' \<and> filter answer xs \<in> rounds h"
begin

lemma run_terminal: "terminal h \<Longrightarrow> run_steps step h inputs = Ok (h', xs) \<Longrightarrow> h' = h \<and> xs = []"
  by (induction inputs arbitrary: h' xs) (auto dest: absorbing)

lemma run_answers:
  "run_steps step h inputs = Ok (h', xs) \<Longrightarrow> filter answer xs = [] \<or> terminal h' \<and> filter answer xs \<in> rounds h"
proof (induction inputs arbitrary: h xs)
  case (Cons i inputs)
  then obtain h1 ys zs where s: "step h i = Ok (h1, ys)" "run_steps step h1 inputs = Ok (h', zs)" "xs = ys @ zs" by auto
  show ?case
  proof (cases "filter answer ys = []")
    case True
    with Cons.IH [OF s(2)] s(3) keeps_rounds [OF s(1)] show ?thesis by simp
  next
    case False
    with answer_ends [OF s(1)] run_terminal [OF _ s(2)] s(3) show ?thesis by auto
  qed
qed simp

end

text \<open>A handler of a user's request stays one until it has answered.\<close>

locale answering_handler = acking_handler +
  fixes user :: "'h \<Rightarrow> bool"
  assumes user_step: "user h \<Longrightarrow> step h i = Ok (h', xs) \<Longrightarrow>
    user h' \<and> \<not> terminal h' \<and> filter answer xs = [] \<or> terminal h' \<and> filter answer xs \<in> rounds h"
    and user_open: "user h \<Longrightarrow> \<not> terminal h"
begin

lemma run_user:
  "user h \<Longrightarrow> run_steps step h inputs = Ok (h', xs) \<Longrightarrow>
   user h' \<and> \<not> terminal h' \<and> filter answer xs = [] \<or> terminal h' \<and> filter answer xs \<in> rounds h"
proof (induction inputs arbitrary: h xs)
  case Nil
  then show ?case using user_open by simp
next
  case (Cons i inputs)
  then obtain h1 ys zs where s: "step h i = Ok (h1, ys)" "run_steps step h1 inputs = Ok (h', zs)" "xs = ys @ zs" by auto
  from user_step [OF Cons.prems(1) s(1)] show ?case
  proof
    assume "user h1 \<and> \<not> terminal h1 \<and> filter answer ys = []"
    with Cons.IH [OF _ s(2)] s(3) keeps_rounds [OF s(1)] show ?thesis by auto
  next
    assume "terminal h1 \<and> filter answer ys \<in> rounds h"
    with run_terminal [OF _ s(2)] s(3) show ?thesis by auto
  qed
qed

end

section \<open>The request handler provides it\<close>

type_synonym input = "nat \<times> RequestEvent option \<times> pool_dir"

definition handler_step :: "'e request_env_scheme \<Rightarrow> RequestHandlerImpl \<Rightarrow> input \<Rightarrow> (RequestHandlerImpl \<times> effect list) IndyResult" where
  "handler_step E h i = (case i of (t, ore, d) \<Rightarrow> bind_outcome (snd (process_event E t h ore d)) (\<lambda>(h', _, effs). Ok (h', effs)))"

definition answer_rounds :: "RequestHandlerImpl \<Rightarrow> effect list set" where
  "answer_rounds h = (case request_wrapper h of None \<Rightarrow> {} | Some w \<Rightarrow> range (send_replies (sm_cmd_ids w)))"

fun user_state :: "RequestState \<Rightarrow> bool" where
  "user_state (Single _) = True"
| "user_state (Consensus _) = True"
| "user_state (Full _) = True"
| "user_state _ = False"

definition user_handler :: "RequestHandlerImpl \<Rightarrow> bool" where
  "user_handler h = (case request_wrapper h of None \<Rightarrow> False | Some w \<Rightarrow> user_state (sm_state w))"

lemma handle_event_keeps_ids:
  "handle_event E t sm re d = (d', Ok (sm', pe, effs)) \<Longrightarrow>
   sm_cmd_ids sm' = sm_cmd_ids sm \<and> sm_f sm' = sm_f sm \<and> sm_nodes sm' = sm_nodes sm \<and> sm_generator sm' = sm_generator sm"
  by (auto simp: handle_event_def split: prod.splits)

lemma handle_event_Finish:
  "sm_state sm = Finish \<Longrightarrow> handle_event E t sm re d = (d, Ok (sm, None, []))"
  by (simp add: handle_event_def)

lemma consensus_state_next: "consensus_event E sm st re = Ok (s, pe, effs) \<Longrightarrow> s = Finish \<or> (\<exists>st'. s = Consensus st')"
  by (cases re) (auto simp: consensus_reply_def consensus_timeout_def Let_def split: outcome.splits prod.splits if_splits)

lemma single_continue_next: "single_continue sm st rid n = Ok (s, pe, effs) \<Longrightarrow> s = Finish \<or> (\<exists>st'. s = Single st')"
  by (auto simp: single_continue_def try_to_continue_def split: if_splits)

lemma single_state_next: "single_event E t sm st re = Ok (s, pe, effs) \<Longrightarrow> s = Finish \<or> (\<exists>st'. s = Single st')"
proof -
  have "single_reply E t sm st raw node rid = Ok (s, pe, effs) \<Longrightarrow> s = Finish \<or> (\<exists>st'. s = Single st')" for raw node rid
    by (auto simp: single_reply_def Let_def split: outcome.splits prod.splits if_splits dest!: single_continue_next)
  then show "single_event E t sm st re = Ok (s, pe, effs) \<Longrightarrow> ?thesis"
    by (cases re) (auto dest: single_continue_next)
qed

lemma full_state_next: "full_event E sm st re = Ok (s, pe, effs) \<Longrightarrow> s = Finish \<or> (\<exists>st'. s = Full st')"
  by (cases re) (auto simp: full_request_handle_consensus_state_def Let_def split: option.splits json.splits if_splits)

lemma user_event_answers:
  assumes "user_state (sm_state sm)" "handle_event E t sm re d = (d', Ok (sm', pe, effs))"
  shows "(user_state (sm_state sm') \<or> sm_state sm' = Finish) \<and> answers_at_end (sm_cmd_ids sm) (sm_state sm') effs"
proof (cases "sm_state sm")
  case (Single st)
  with assms(2) have "single_event E t sm st re = Ok (sm_state sm', pe, effs)"
    by (auto simp: handle_event_def)
  from single_answers [OF this] single_state_next [OF this] show ?thesis by auto
next
  case (Consensus st)
  with assms(2) have "consensus_event E sm st re = Ok (sm_state sm', pe, effs)"
    by (auto simp: handle_event_def)
  from consensus_answers [OF this] consensus_state_next [OF this] show ?thesis by auto
next
  case (Full st)
  with assms(2) have "full_event E sm st re = Ok (sm_state sm', pe, effs)"
    by (auto simp: handle_event_def)
  from full_answers [OF this] full_state_next [OF this] show ?thesis by auto
qed (use assms in simp_all)

lemma handler_step_cases:
  assumes "handler_step E h (t, ore, d) = Ok (h', effs)"
  shows "h' = h \<and> effs = [] \<and> (ore = None \<or> request_wrapper h = None) \<or>
     (\<exists>re w w' pe d'. ore = Some re \<and> request_wrapper h = Some w \<and>
        handle_event E t w re d = (d', Ok (w', pe, effs)) \<and> h' = h\<lparr>request_wrapper := Some w'\<rparr>)"
proof (cases ore)
  case None
  with assms show ?thesis by (simp add: handler_step_def process_event_def)
next
  case (Some re)
  show ?thesis
  proof (cases "request_wrapper h")
    case None
    with assms Some show ?thesis by (cases h) (auto simp: handler_step_def process_event_def)
  next
    case (Some w)
    with assms \<open>ore = Some re\<close> show ?thesis
      by (cases "handle_event E t w re d") (auto simp: handler_step_def process_event_def)
  qed
qed

lemma user_not_terminal: "user_handler h \<Longrightarrow> \<not> is_terminal h"
  by (auto simp: user_handler_def is_terminal_def sm_is_terminal_def split: option.splits RequestState.splits)

lemma user_handler_step:
  assumes "user_handler h" "handler_step E h (t, ore, d) = Ok (h', effs)"
  shows "user_handler h' \<and> \<not> is_terminal h' \<and> acks effs = [] \<or> is_terminal h' \<and> acks effs \<in> answer_rounds h"
  using handler_step_cases [OF assms(2)]
proof
  assume "h' = h \<and> effs = [] \<and> (ore = None \<or> request_wrapper h = None)"
  with assms(1) user_not_terminal show ?thesis by auto
next
  assume "\<exists>re w w' pe d'. ore = Some re \<and> request_wrapper h = Some w \<and>
    handle_event E t w re d = (d', Ok (w', pe, effs)) \<and> h' = h\<lparr>request_wrapper := Some w'\<rparr>"
  then obtain re w w' pe d' where w: "request_wrapper h = Some w" "handle_event E t w re d = (d', Ok (w', pe, effs))"
    "h' = h\<lparr>request_wrapper := Some w'\<rparr>" by blast
  with assms(1) have "user_state (sm_state w)" by (simp add: user_handler_def)
  from user_event_answers [OF this w(2)] have n: "user_state (sm_state w') \<or> sm_state w' = Finish"
    "answers_at_end (sm_cmd_ids w) (sm_state w') effs" by simp_all
  show ?thesis
  proof (cases "sm_state w' = Finish")
    case True
    with n w show ?thesis by (auto simp: answers_at_end_def is_terminal_def sm_is_terminal_def answer_rounds_def)
  next
    case False
    with n w have "user_handler h'" "acks effs = []" by (auto simp: user_handler_def answers_at_end_def)
    with user_not_terminal show ?thesis by blast
  qed
qed

interpretation rh: answering_handler "handler_step E" is_terminal is_ack answer_rounds user_handler for E
proof
  fix h h' :: RequestHandlerImpl and i :: input and xs
  obtain t ore d where i: "i = (t, ore, d)" by (cases i)
  assume "handler_step E h i = Ok (h', xs)"
  note step = handler_step_cases [OF this [unfolded i]]
  show "h' = h \<and> xs = []" if "is_terminal h"
    using step that by (auto simp: is_terminal_def sm_is_terminal_def handle_event_Finish split: RequestState.splits)
  show "answer_rounds h' = answer_rounds h"
    using step by (auto simp: answer_rounds_def dest!: handle_event_keeps_ids)
  show "acks xs = [] \<or> is_terminal h' \<and> acks xs \<in> answer_rounds h"
    using step
    by (auto simp: answer_rounds_def is_terminal_def sm_is_terminal_def at_most_at_end_def dest!: handle_event_at_most)
  show "user_handler h' \<and> \<not> is_terminal h' \<and> acks xs = [] \<or> is_terminal h' \<and> acks xs \<in> answer_rounds h"
    if "user_handler h"
    using user_handler_step [OF that] \<open>handler_step E h i = Ok (h', xs)\<close> i by blast
qed (rule user_not_terminal)

section \<open>Every command is answered once\<close>

fun user_request :: "RequestEvent \<Rightarrow> bool" where
  "user_request (Re_CustomSingleRequest _ _) = True"
| "user_request (Re_CustomConsensusRequest _ _) = True"
| "user_request (Re_CustomFullRequest _ _ _ _) = True"
| "user_request _ = False"

lemma start_user_request:
  assumes "user_request re" "start_event E sm re = Ok (s, pe, effs)"
  shows "(user_state s \<or> s = Finish) \<and> answers_at_end (sm_cmd_ids sm) s effs"
  using assms
  by (cases re) (auto simp: answers_at_end_def start_full_request_def Let_def split: option.splits if_splits)

lemma new_handler_step:
  assumes "user_request re"
    and "handler_step E (handler_new E f ids nodes g name t0 t1) (t, Some re, d) = Ok (h, effs)"
  shows "user_handler h \<and> acks effs = [] \<and> answer_rounds h = range (send_replies ids) \<or>
    is_terminal h \<and> acks effs \<in> range (send_replies ids)"
proof -
  let ?sm = "RequestSM_new E f ids nodes g name t0 t1"
  from handler_step_cases [OF assms(2)] obtain w pe d' where
    w: "handle_event E t ?sm re d = (d', Ok (w, pe, effs))" "request_wrapper h = Some w"
    by (auto simp: handler_new_def)
  then have "start_event E ?sm re = Ok (sm_state w, pe, effs)" "sm_cmd_ids w = ids"
    by (auto simp: handle_event_def RequestSM_new_def)
  with start_user_request [OF assms(1)] have
    "(user_state (sm_state w) \<or> sm_state w = Finish) \<and> answers_at_end ids (sm_state w) effs"
    by (fastforce simp: RequestSM_new_def)
  with w(2) \<open>sm_cmd_ids w = ids\<close> show ?thesis
    by (cases "sm_state w = Finish")
      (auto simp: answers_at_end_def user_handler_def is_terminal_def sm_is_terminal_def answer_rounds_def)
qed

text \<open>
  C4: Every command of a user's request is acknowledged exactly once. Along every run of a new handler
  that starts with a request of the user and continues with any events, at any times and with any
  contents of the pool directory: while the handler is not terminal no command has been acknowledged,
  and once it is terminal every command has been acknowledged exactly once, all with the same outcome.
\<close>

theorem commands_answered_once:
  assumes "user_request re"
    and "run_steps (handler_step E) (handler_new E f ids nodes g name t0 t1) ((t, Some re, d) # inputs) = Ok (h, effs)"
  shows "if is_terminal h then \<exists>outcome. acks effs = send_replies ids outcome else acks effs = []"
proof -
  from assms(2) obtain h1 xs ys where s: "handler_step E (handler_new E f ids nodes g name t0 t1) (t, Some re, d) = Ok (h1, xs)"
    "run_steps (handler_step E) h1 inputs = Ok (h, ys)" "effs = xs @ ys" by auto
  from new_handler_step [OF assms(1) s(1)] show ?thesis
  proof
    assume "user_handler h1 \<and> acks xs = [] \<and> answer_rounds h1 = range (send_replies ids)"
    with rh.run_user [OF _ s(2)] s(3) show ?thesis by auto
  next
    assume "is_terminal h1 \<and> acks xs \<in> range (send_replies ids)"
    with rh.run_terminal [OF _ s(2)] s(3) show ?thesis by auto
  qed
qed

text \<open>An environment for concrete runs: every text is the JSON object with itself as the result.\<close>

definition plain_request_env :: request_env where
  "plain_request_env = catchup_env.extend plain_env
     \<lparr>json_parse = (\<lambda>s. if s = ''bad'' then None else Some (JObject [(''result'', JString s)])),
      nodes_parse = (\<lambda>_. Some [''A'', ''A'']),
      json_to_string = (\<lambda>v. ''object''), ledger_message = (\<lambda>_. None), parse_reply_proofs = (\<lambda>_ _. Err ()),
      verify_parsed_sp = (\<lambda>_ _ _ _. Ok False), node_rank = (\<lambda>_. 0), default_generator = [], freshness_threshold = 300\<rparr>"

abbreviation four_nodes :: "(string, VerKey option) hmap" where
  "four_nodes \<equiv> [(''A'', None), (''B'', None), (''C'', None), (''D'', None)]"

abbreviation sample_reply :: Reply where
  "sample_reply \<equiv> Reply_V0 (ReplyV0 \<lparr>meta_req_id = 1\<rparr>)"

theorem commands_answered_once_witness:
  "let inputs = [(0, Some (Re_CustomConsensusRequest ''q'' ''1''), genesis_dir []),
       (0, Some (Re_Reply sample_reply ''r'' ''A'' ''1''), genesis_dir []),
       (0, Some (Re_Reply sample_reply ''r'' ''B'' ''1''), genesis_dir []),
       (0, Some (Re_Reply sample_reply ''r'' ''C'' ''1''), genesis_dir [])];
     r = the (ok_val (run_steps (handler_step plain_request_env) (handler_new plain_request_env 1 [7, 8] four_nodes None ''p'' 20 60) inputs))
   in is_terminal (fst r) \<and> (\<exists>outcome. acks (snd r) = send_replies [7, 8] outcome)"
proof -
  let ?q = "Re_CustomConsensusRequest ''q'' ''1''" and ?rest = "[(0, Some (Re_Reply sample_reply ''r'' ''A'' ''1''), genesis_dir []),
       (0, Some (Re_Reply sample_reply ''r'' ''B'' ''1''), genesis_dir []),
       (0, Some (Re_Reply sample_reply ''r'' ''C'' ''1''), genesis_dir [])]"
    and ?h = "handler_new plain_request_env 1 [7, 8] four_nodes None ''p'' 20 60"
  let ?r = "the (ok_val (run_steps (handler_step plain_request_env) ?h ((0, Some ?q, genesis_dir []) # ?rest)))"
  have "is_ok (run_steps (handler_step plain_request_env) ?h ((0, Some ?q, genesis_dir []) # ?rest))" by code_simp
  then have run: "run_steps (handler_step plain_request_env) ?h ((0, Some ?q, genesis_dir []) # ?rest) = Ok (fst ?r, snd ?r)"
    using is_ok_val by (metis prod.collapse)
  have "is_terminal (fst ?r)" by code_simp
  with commands_answered_once [OF _ run] show ?thesis by (simp add: Let_def)
qed

section \<open>Documented transitions\<close>

text \<open>The transitions listed in the comment on \<open>RequestState\<close>.\<close>

inductive documented :: "RequestState \<Rightarrow> RequestState \<Rightarrow> bool" where
  "documented Start s"
| "documented (Single a) (Single b)"
| "documented (Single a) Finish"
| "documented (Consensus a) (Consensus b)"
| "documented (Consensus a) Finish"
| "documented (CatchupSingle a) (CatchupSingle b)"
| "documented (CatchupSingle a) Finish"
| "documented (CatchupConsensus a) (CatchupConsensus b)"
| "documented (CatchupConsensus a) Finish"
| "documented (Full a) (Full b)"
| "documented (Full a) Finish"
| "documented Finish Finish"

inductive_simps documented_simps [simp]:
  "documented (Single a) s" "documented (Consensus a) s" "documented (CatchupSingle a) s"
  "documented (CatchupConsensus a) s" "documented (Full a) s" "documented Finish s" "documented Start s"

lemma catchup_target_next:
  "catchup_target_handle_consensus_state E sm st r n p node rid d = (d', Ok (s, pe, effs)) \<Longrightarrow>
   s = Finish \<or> (\<exists>st'. s = CatchupConsensus st')"
  by (auto simp: catchup_target_handle_consensus_state_def split: prod.splits if_splits option.splits PoolEvent.splits)

lemma catchup_consensus_next:
  "catchup_consensus_event E sm st re d = (d', Ok (s, pe, effs)) \<Longrightarrow> s = Finish \<or> (\<exists>st'. s = CatchupConsensus st')"
  by (cases "(E, sm, st, re, d)" rule: catchup_consensus_event.cases) (auto dest: catchup_target_next)

lemma catchup_single_next:
  "catchup_single_event E sm st re d = (d', Ok (s, pe, effs)) \<Longrightarrow> s = Finish \<or> s = CatchupSingle st"
  by (cases "(E, sm, st, re, d)" rule: catchup_single_event.cases) (auto split: prod.splits outcome.splits)

lemmas next_states = consensus_state_next single_state_next full_state_next catchup_consensus_next catchup_single_next

text \<open>
  C24: The state machine makes only the transitions its documentation lists, whatever event arrives in
  whatever state; in particular a finished request stays finished.
\<close>

theorem transitions_as_documented:
  assumes "handle_event E t sm re d = (d', Ok (sm', pe, effs))"
  shows "documented (sm_state sm) (sm_state sm')"
  using assms by (cases "sm_state sm") (auto simp: handle_event_def split: prod.splits dest!: next_states)

theorem transitions_as_documented_witness:
  "documented Start (Single single_from_start)"
proof -
  let ?sm = "RequestSM_new plain_request_env 1 [7] four_nodes None ''p'' 20 60"
  have "handle_event plain_request_env 0 ?sm (Re_CustomSingleRequest ''q'' ''1'') (genesis_dir []) =
    (genesis_dir [], Ok (?sm\<lparr>sm_state := Single single_from_start\<rparr>, None,
       [Net (Ne_SendOneRequest ''q'' ''1'' 20), Net (Ne_Resend ''1'' 20)]))"
    by (simp add: handle_event_def RequestSM_new_def)
  from transitions_as_documented [OF this] show ?thesis by (simp add: RequestSM_new_def)
qed

end
