(* ===== verification/Request_Quorum.thy ===== *)
theory Request_Quorum
  imports Request_Properties
begin

text \<open>
  What backs a positive answer. A run of the state machine is recorded with the events it has
  consumed; the invariant ties every node counted in a state to an answer of that node in the
  history. A positive answer of a request to a quorum is then the answer of an honest node as long as
  at most \<open>f\<close> nodes are faulty, and so is one of a request to a single node unless a verified state
  proof vouches for it.
\<close>

section \<open>Runs with their history\<close>

fun answer_of :: "RequestEvent \<Rightarrow> (string \<times> string) option" where
  "answer_of (Re_Reply _ raw_msg node _) = Some (node, raw_msg)"
| "answer_of (Re_ReqNACK _ raw_msg node _) = Some (node, raw_msg)"
| "answer_of (Re_Reject _ raw_msg node _) = Some (node, raw_msg)"
| "answer_of _ = None"

inductive reach :: "'e request_env_scheme \<Rightarrow> RequestSM \<Rightarrow> RequestSM \<Rightarrow> RequestEvent list \<Rightarrow> bool" for E sm0 where
  init: "reach E sm0 sm0 []"
| step: "reach E sm0 sm hist \<Longrightarrow> handle_event E t sm re d = (d', Ok (sm', pe, effs)) \<Longrightarrow> reach E sm0 sm' (hist @ [re])"

text \<open>The result of a message as the machine compares it.\<close>

definition result_of :: "'e request_env_scheme \<Rightarrow> string \<Rightarrow> json option" where
  "result_of E raw_msg = map_option snd (ok_val (get_msg_result_without_state_proof E raw_msg))"

definition answered :: "'e request_env_scheme \<Rightarrow> RequestEvent list \<Rightarrow> json \<Rightarrow> string \<Rightarrow> string \<Rightarrow> bool" where
  "answered E hist v node raw_msg = (\<exists>ev \<in> set hist. answer_of ev = Some (node, raw_msg) \<and> result_of E raw_msg = Some v)"

lemma answered_mono: "answered E hist v n m \<Longrightarrow> answered E (hist @ es) v n m"
  by (auto simp: answered_def)

definition replies_ok :: "('a \<Rightarrow> string) \<Rightarrow> ('a \<Rightarrow> 'k \<Rightarrow> bool) \<Rightarrow> ('k, 'a list) hmap \<Rightarrow> bool" where
  "replies_ok node P m = (\<forall>v s. hmap_get v m = Some s \<longrightarrow> distinct (map node s) \<and> (\<forall>a \<in> set s. P a v))"

lemma replies_ok_Nil [simp]: "replies_ok node P []"
  by (simp add: replies_ok_def)

lemma replies_ok_mono: "replies_ok node P m \<Longrightarrow> (\<And>a v. P a v \<Longrightarrow> Q a v) \<Longrightarrow> replies_ok node Q m"
  by (auto simp: replies_ok_def)

lemma replies_ok_entry: "replies_ok node P m \<Longrightarrow> distinct (map node (entry_set v m)) \<and> (\<forall>a \<in> set (entry_set v m). P a v)"
  by (auto simp: replies_ok_def entry_set_def split: option.splits)

lemma replies_ok_insert:
  "replies_ok node P m \<Longrightarrow> distinct (map node s) \<Longrightarrow> (\<And>a. a \<in> set s \<Longrightarrow> P a v) \<Longrightarrow> replies_ok node P (hmap_insert v s m)"
  by (auto simp: replies_ok_def)

abbreviation node_answered :: "'e request_env_scheme \<Rightarrow> RequestEvent list \<Rightarrow> string \<Rightarrow> json \<Rightarrow> bool" where
  "node_answered E hist node v \<equiv> \<exists>m. answered E hist v node m"

abbreviation response_given :: "'e request_env_scheme \<Rightarrow> RequestEvent list \<Rightarrow> NodeResponse \<Rightarrow> json \<Rightarrow> bool" where
  "response_given E hist r v \<equiv> answered E hist v (nr_node_alias r) (nr_raw_msg r)"

fun vote_of :: "RequestEvent \<Rightarrow> (string \<times> vote) option" where
  "vote_of (Re_LedgerStatus ls (Some node) _) = Some (node, (merkleRoot ls, txnSeqNo ls, None))"
| "vote_of (Re_ConsistencyProof cp node) = Some (node, (newMerkleRoot cp, cp_seqNoEnd cp, Some (hashes cp)))"
| "vote_of (Re_Timeout _ node) = Some (node, (''timeout'', 0, None))"
| "vote_of _ = None"

definition voted :: "RequestEvent list \<Rightarrow> string \<Rightarrow> vote \<Rightarrow> bool" where
  "voted hist node v = (Some (node, v) \<in> vote_of ` set hist)"

lemma voted_mono: "voted hist n v \<Longrightarrow> voted (hist @ es) n v"
  by (auto simp: voted_def)

text \<open>What a node contributes to a request that goes to all nodes.\<close>

fun feedback :: "RequestEvent \<Rightarrow> (string \<times> string) option" where
  "feedback (Re_Timeout _ node) = Some (node, ''timeout'')"
| "feedback re = answer_of re"

definition gathered :: "RequestEvent list \<Rightarrow> (string \<times> json) list \<Rightarrow> bool" where
  "gathered hist kvs = (btree_ok kvs \<and> (\<forall>(n, v) \<in> set kvs. \<exists>r. v = JString r \<and> Some (n, r) \<in> feedback ` set hist))"

lemma gathered_mono: "gathered hist kvs \<Longrightarrow> gathered (hist @ es) kvs"
  unfolding gathered_def by fastforce

fun accum_ok :: "RequestEvent list \<Rightarrow> json option \<Rightarrow> bool" where
  "accum_ok hist None = True"
| "accum_ok hist (Some (JObject kvs)) = gathered hist kvs"
| "accum_ok hist (Some _) = False"

fun state_ok :: "'e request_env_scheme \<Rightarrow> RequestEvent list \<Rightarrow> RequestState \<Rightarrow> bool" where
  "state_ok E hist (Consensus st) = replies_ok (\<lambda>n. n) (node_answered E hist) (co_replies st)"
| "state_ok E hist (Single st) = replies_ok nr_node_alias (response_given E hist) (si_replies st)"
| "state_ok E hist (CatchupConsensus st) = (hmap_ok (cc_replies st) \<and> replies_ok (\<lambda>n. n) (voted hist) (cc_replies st))"
| "state_ok E hist (Full st) = accum_ok hist (accum_reply st)"
| "state_ok E hist _ = True"

lemma state_ok_mono: "state_ok E hist s \<Longrightarrow> state_ok E (hist @ es) s"
proof (cases s)
  case (Consensus st)
  assume "state_ok E hist s"
  with Consensus have "replies_ok (\<lambda>n. n) (node_answered E hist) (co_replies st)" by simp
  from replies_ok_mono [OF this, of "node_answered E (hist @ es)"] Consensus show ?thesis
    using answered_mono by fastforce
next
  case (Single st)
  assume "state_ok E hist s"
  with Single have "replies_ok nr_node_alias (response_given E hist) (si_replies st)" by simp
  from replies_ok_mono [OF this, of "response_given E (hist @ es)"] Single show ?thesis
    using answered_mono by fastforce
next
  case (CatchupConsensus st)
  assume "state_ok E hist s"
  with CatchupConsensus have "hmap_ok (cc_replies st)" "replies_ok (\<lambda>n. n) (voted hist) (cc_replies st)" by simp_all
  with replies_ok_mono [OF this(2), of "voted (hist @ es)"] CatchupConsensus show ?thesis
    using voted_mono by fastforce
next
  case (Full st)
  assume "state_ok E hist s"
  with Full show ?thesis by (cases "(hist, accum_reply st)" rule: accum_ok.cases) (simp_all add: gathered_mono)
qed simp_all

section \<open>The steps keep the invariant\<close>

lemma result_of_Ok: "get_msg_result_without_state_proof E m = Ok (r, v) \<Longrightarrow> result_of E m = Some v"
  by (simp add: result_of_def)

lemma answered_now: "answer_of re = Some (n, m) \<Longrightarrow> result_of E m = Some v \<Longrightarrow> answered E (hist @ [re]) v n m"
  by (auto simp: answered_def)

lemma consensus_insert_ok:
  assumes "state_ok E hist (Consensus st)" "answer_of re = Some (n, m)" "result_of E m = Some v"
  shows "state_ok E (hist @ [re]) (Consensus (st\<lparr>co_replies := hmap_insert v (hset_insert n (entry_set v (co_replies st))) (co_replies st)\<rparr>))"
    and "distinct (hset_insert n (entry_set v (co_replies st)))"
    and "\<forall>x \<in> set (hset_insert n (entry_set v (co_replies st))). node_answered E (hist @ [re]) x v"
proof -
  from state_ok_mono [OF assms(1)] have old: "replies_ok (\<lambda>n. n) (node_answered E (hist @ [re])) (co_replies st)" by simp
  from replies_ok_entry [OF this, of v] answered_now [OF assms(2,3)]
  show d: "distinct (hset_insert n (entry_set v (co_replies st)))"
    and a: "\<forall>x \<in> set (hset_insert n (entry_set v (co_replies st))). node_answered E (hist @ [re]) x v"
    by auto
  from replies_ok_insert [OF old, of "hset_insert n (entry_set v (co_replies st))" v] d a
  show "state_ok E (hist @ [re]) (Consensus (st\<lparr>co_replies := hmap_insert v (hset_insert n (entry_set v (co_replies st))) (co_replies st)\<rparr>))"
    by simp
qed

lemma consensus_reply_ok:
  assumes "state_ok E hist (Consensus st)" "answer_of re = Some (n, m)" "consensus_reply E sm st m n rid = Ok (s, pe, effs)"
  shows "state_ok E (hist @ [re]) s"
proof (cases "get_msg_result_without_state_proof E m")
  case (Ok rv)
  obtain r v where rv: "rv = (r, v)" by (cases rv)
  with Ok have "result_of E m = Some v" by (simp add: result_of_Ok)
  from consensus_insert_ok(1) [OF assms(1,2) this] assms(3) Ok rv show ?thesis
    by (auto simp: consensus_reply_def Let_def split: if_splits)
next
  case (Err e)
  with assms state_ok_mono [OF assms(1), of "[re]"] show ?thesis by (auto simp: consensus_reply_def Let_def split: if_splits)
next
  case Panic
  with assms state_ok_mono [OF assms(1), of "[re]"] show ?thesis by (auto simp: consensus_reply_def Let_def split: if_splits)
qed

lemma consensus_event_ok:
  assumes "state_ok E hist (Consensus st)" "consensus_event E sm st re = Ok (s, pe, effs)"
  shows "state_ok E (hist @ [re]) s"
proof (cases "answer_of re")
  case (Some nm)
  obtain n m where nm: "nm = (n, m)" by (cases nm)
  with Some assms(2) obtain rid where "consensus_reply E sm st m n rid = Ok (s, pe, effs)"
    by (cases re) auto
  from consensus_reply_ok [OF assms(1) Some [unfolded nm] this] show ?thesis .
next
  case None
  with assms state_ok_mono [OF assms(1), of "[re]"] show ?thesis
    by (cases re) (auto simp: consensus_timeout_def Let_def split: if_splits)
qed

lemma distinct_response_insert:
  "distinct (map nr_node_alias s) \<Longrightarrow> distinct (map nr_node_alias (response_insert r s))"
  by (auto simp: response_insert_def)

lemma single_insert_ok:
  assumes "state_ok E hist (Single st)" "answer_of re = Some (n, m)" "result_of E m = Some v"
    and rs: "rs = response_insert \<lparr>nr_raw_msg = m, nr_node_alias = n, nr_timestamp = ts\<rparr> (entry_set v (si_replies st))"
  shows "replies_ok nr_node_alias (response_given E (hist @ [re])) (hmap_insert v rs (si_replies st)) \<and>
    distinct (map nr_node_alias rs) \<and> (\<forall>x \<in> set rs. response_given E (hist @ [re]) x v)"
proof -
  from state_ok_mono [OF assms(1)] have old: "replies_ok nr_node_alias (response_given E (hist @ [re])) (si_replies st)" by simp
  have d: "distinct (map nr_node_alias rs)"
    unfolding rs using replies_ok_entry [OF old] by (intro distinct_response_insert) blast
  moreover have a: "\<forall>x \<in> set rs. response_given E (hist @ [re]) x v"
    unfolding rs using replies_ok_entry [OF old, of v] answered_now [OF assms(2,3)]
    by (auto simp: response_insert_def)
  ultimately show ?thesis using replies_ok_insert [OF old, of rs v] by blast
qed

lemma single_continue_ok:
  "state_ok E hist (Single st) \<Longrightarrow> single_continue sm st rid n = Ok (s, pe, effs) \<Longrightarrow> state_ok E hist s"
  by (auto simp: single_continue_def try_to_continue_def split: if_splits)

lemma single_reply_ok:
  assumes ok: "state_ok E hist (Single st)" and re: "answer_of re = Some (n, m)"
    and run: "single_reply E t sm st m n rid = Ok (s, pe, effs)"
  shows "state_ok E (hist @ [re]) s"
proof -
  let ?st = "st\<lparr>si_timeout_nodes := hset_remove n (si_timeout_nodes st)\<rparr>"
  have ok': "state_ok E hist (Single ?st)" using ok by simp
  show ?thesis
  proof (cases "get_msg_result_without_state_proof E m")
    case (Ok rv)
    obtain r v where rv: "rv = (r, v)" by (cases rv)
    with Ok have v: "result_of E m = Some v" by (simp add: result_of_Ok)
    from single_insert_ok [OF ok' re v refl] run Ok rv show ?thesis
      by (auto simp: single_reply_def Let_def split: if_splits intro: single_continue_ok [rotated])
  next
    case (Err e)
    with run state_ok_mono [OF ok'] show ?thesis
      by (auto simp: single_reply_def Let_def intro: single_continue_ok [rotated])
  next
    case Panic
    with run state_ok_mono [OF ok'] show ?thesis
      by (auto simp: single_reply_def Let_def intro: single_continue_ok [rotated])
  qed
qed

lemma single_event_ok:
  assumes "state_ok E hist (Single st)" "single_event E t sm st re = Ok (s, pe, effs)"
  shows "state_ok E (hist @ [re]) s"
proof (cases "answer_of re")
  case (Some nm)
  obtain n m where nm: "nm = (n, m)" by (cases nm)
  with Some assms(2) obtain rid where "single_reply E t sm st m n rid = Ok (s, pe, effs)"
    by (cases re) auto
  from single_reply_ok [OF assms(1) Some [unfolded nm] this] show ?thesis .
next
  case None
  with assms state_ok_mono [OF assms(1), of "[re]"] show ?thesis
    by (cases re) (auto intro: single_continue_ok [rotated])
qed

lemma start_event_ok: "start_event E sm re = Ok (s, pe, effs) \<Longrightarrow> state_ok E hist s"
  by (cases "(E, sm, re)" rule: start_event.cases)
    (auto simp: start_full_request_def Let_def single_from_start_def consensus_from_start_def
      catchup_consensus_from_def full_from_def split: outcome.splits option.splits if_splits)

lemma btree_insert_in: "(a, b) \<in> set (btree_insert k v m) \<Longrightarrow> (a, b) = (k, v) \<or> (a, b) \<in> set m"
  by (induction m) (auto split: if_splits)

lemma gathered_insert:
  assumes "gathered hist kvs" "feedback re = Some (n, r)"
  shows "gathered (hist @ [re]) (btree_insert n (JString r) kvs)"
proof -
  from gathered_mono [OF assms(1)] have "gathered (hist @ [re]) kvs" .
  moreover have "Some (n, r) \<in> feedback ` set (hist @ [re])" using assms(2) by force
  ultimately show ?thesis
    unfolding gathered_def by (auto intro: btree_ok_insert dest!: btree_insert_in)
qed

lemma gathered_single: "feedback re = Some (n, r) \<Longrightarrow> gathered (hist @ [re]) [(n, JString r)]"
  by (force simp: gathered_def btree_ok_def)

abbreviation required_replies :: "RequestSM \<Rightarrow> FullState \<Rightarrow> nat" where
  "required_replies sm st \<equiv> (case nodes_to_send st of Some ns \<Rightarrow> length ns | None \<Rightarrow> length (sm_nodes sm))"

lemma full_event_feedback:
  assumes "full_event E sm st re = Ok (s, pe, effs)" "feedback re = Some (n, r)"
  obtains rid where "full_request_handle_consensus_state E sm st rid n r = Ok (s, pe, effs)"
  using assms by (cases re) auto

lemma full_accum:
  assumes "accum_ok hist (accum_reply st)" "feedback re = Some (n, r)"
  obtains kvs where "gathered (hist @ [re]) kvs"
    "full_request_handle_consensus_state E sm st rid n r =
       (if length kvs = required_replies sm st
        then Ok (Finish, None, Net (Ne_CleanTimeout rid None) # send_ok_replies (sm_cmd_ids sm) (json_to_string E (JObject kvs)))
        else Ok (Full (st\<lparr>accum_reply := Some (JObject kvs)\<rparr>), None, [Net (Ne_CleanTimeout rid (Some n))]))"
  using assms(1)
proof (cases "(hist, accum_reply st)" rule: accum_ok.cases)
  case (1 hist')
  with that [of "[(n, JString r)]"] gathered_single [OF assms(2)] show thesis
    by (simp add: full_request_handle_consensus_state_def Let_def)
next
  case (2 hist' kvs)
  with assms that [of "btree_insert n (JString r) kvs"] gathered_insert [OF _ assms(2)] show thesis
    by (simp add: full_request_handle_consensus_state_def Let_def)
qed (use assms in auto)

lemma full_event_step:
  assumes "state_ok E hist (Full st)" "full_event E sm st re = Ok (s, pe, effs)" "feedback re = Some (n, r)"
  obtains (complete) kvs rid where "gathered (hist @ [re]) kvs" "length kvs = required_replies sm st" "s = Finish"
      "effs = Net (Ne_CleanTimeout rid None) # send_ok_replies (sm_cmd_ids sm) (json_to_string E (JObject kvs))"
    | (more) kvs rid where "gathered (hist @ [re]) kvs" "length kvs \<noteq> required_replies sm st"
      "s = Full (st\<lparr>accum_reply := Some (JObject kvs)\<rparr>)" "effs = [Net (Ne_CleanTimeout rid (Some n))]"
proof -
  from full_event_feedback [OF assms(2,3)] obtain rid where
    run: "full_request_handle_consensus_state E sm st rid n r = Ok (s, pe, effs)" .
  have "accum_ok hist (accum_reply st)" using assms(1) by simp
  from full_accum [OF this assms(3), where rid = rid and E = E and sm = sm] obtain kvs where "gathered (hist @ [re]) kvs"
    "full_request_handle_consensus_state E sm st rid n r = (if length kvs = required_replies sm st
      then Ok (Finish, None, Net (Ne_CleanTimeout rid None) # send_ok_replies (sm_cmd_ids sm) (json_to_string E (JObject kvs)))
      else Ok (Full (st\<lparr>accum_reply := Some (JObject kvs)\<rparr>), None, [Net (Ne_CleanTimeout rid (Some n))]))" .
  then show thesis using run complete [of kvs rid] more [of kvs rid]
    by (cases "length kvs = required_replies sm st") simp_all
qed

lemma full_event_ok:
  assumes "state_ok E hist (Full st)" "full_event E sm st re = Ok (s, pe, effs)"
  shows "state_ok E (hist @ [re]) s"
proof (cases "feedback re")
  case (Some nr)
  then obtain n r where "feedback re = Some (n, r)" by (cases nr) simp
  from full_event_step [OF assms this] show ?thesis by cases simp_all
next
  case None
  with assms state_ok_mono [OF assms(1), of "[re]"] show ?thesis by (cases re) auto
qed

lemma votes_insert_ok:
  assumes "state_ok E hist (CatchupConsensus st)" "vote_of re = Some (n, k)"
  shows "state_ok E (hist @ [re]) (CatchupConsensus
    (st\<lparr>cc_replies := hmap_insert k (hset_insert n (entry_set k (cc_replies st))) (cc_replies st)\<rparr>))"
proof -
  from state_ok_mono [OF assms(1)] have old: "hmap_ok (cc_replies st)" "replies_ok (\<lambda>n. n) (voted (hist @ [re])) (cc_replies st)" by simp_all
  have "voted (hist @ [re]) n k" using assms(2) by (force simp: voted_def)
  with replies_ok_entry [OF old(2), of k] have "distinct (hset_insert n (entry_set k (cc_replies st)))"
    "\<forall>x \<in> set (hset_insert n (entry_set k (cc_replies st))). voted (hist @ [re]) x k" by auto
  with replies_ok_insert [OF old(2), of "hset_insert n (entry_set k (cc_replies st))" k] old(1) show ?thesis by simp
qed

lemma process_target_state:
  "fst (process_catchup_target E r sz p n st f cnt d) =
   st\<lparr>cc_replies := hmap_insert (r, sz, p) (hset_insert n (entry_set (r, sz, p) (cc_replies st))) (cc_replies st)\<rparr>"
  by (simp add: process_catchup_target_def Let_def case_prod_beta)

lemma catchup_target_state:
  assumes "catchup_target_handle_consensus_state E sm st r sz p n rid d = (d', Ok (s, pe, effs))"
  shows "s = Finish \<or> s = CatchupConsensus (fst (process_catchup_target E r sz p n st (sm_f sm) (length (sm_nodes sm)) d))"
proof -
  obtain st' d2 res where p: "process_catchup_target E r sz p n st (sm_f sm) (length (sm_nodes sm)) d = (st', d2, res)"
    by (metis prod_cases3)
  with assms show ?thesis
    by (auto simp: catchup_target_handle_consensus_state_def split: if_splits option.splits PoolEvent.splits)
qed

lemma catchup_target_ok:
  assumes "state_ok E hist (CatchupConsensus st)" "vote_of re = Some (n, (r, sz, p))"
    and "catchup_target_handle_consensus_state E sm st r sz p n rid d = (d', Ok (s, pe, effs))"
  shows "state_ok E (hist @ [re]) s"
  using catchup_target_state [OF assms(3)]
proof
  assume "s = Finish"
  then show ?thesis by simp
next
  assume "s = CatchupConsensus (fst (process_catchup_target E r sz p n st (sm_f sm) (length (sm_nodes sm)) d))"
  with votes_insert_ok [OF assms(1,2)] show ?thesis by (simp only: process_target_state)
qed

lemma catchup_event_vote:
  assumes "catchup_consensus_event E sm st re d = (d', Ok (s, pe, effs))" "vote_of re = Some (n, (r, sz, p))"
  obtains rid where "catchup_target_handle_consensus_state E sm st r sz p n rid d = (d', Ok (s, pe, effs))"
  using assms by (cases "(E, sm, st, re, d)" rule: catchup_consensus_event.cases) auto

lemma catchup_consensus_event_ok:
  assumes "state_ok E hist (CatchupConsensus st)" "catchup_consensus_event E sm st re d = (d', Ok (s, pe, effs))"
  shows "state_ok E (hist @ [re]) s"
proof (cases "vote_of re")
  case (Some nv)
  obtain n r sz p where nv: "nv = (n, (r, sz, p))" by (cases nv)
  from catchup_event_vote [OF assms(2) Some [unfolded nv]] obtain rid where
    "catchup_target_handle_consensus_state E sm st r sz p n rid d = (d', Ok (s, pe, effs))" .
  from catchup_target_ok [OF assms(1) Some [unfolded nv] this] show ?thesis .
next
  case None
  with assms state_ok_mono [OF assms(1), of "[re]"] show ?thesis
    by (cases "(E, sm, st, re, d)" rule: catchup_consensus_event.cases) auto
qed

lemma handle_event_ok:
  assumes "state_ok E hist (sm_state sm)" "handle_event E t sm re d = (d', Ok (sm', pe, effs))"
  shows "state_ok E (hist @ [re]) (sm_state sm')"
proof (cases "sm_state sm")
  case Start
  with assms show ?thesis by (auto simp: handle_event_def dest: start_event_ok)
next
  case (Single st)
  with assms(2) have "single_event E t sm st re = Ok (sm_state sm', pe, effs)" by (auto simp: handle_event_def)
  with Single assms(1) show ?thesis by (intro single_event_ok) simp_all
next
  case (Consensus st)
  with assms(2) have "consensus_event E sm st re = Ok (sm_state sm', pe, effs)" by (auto simp: handle_event_def)
  with Consensus assms(1) show ?thesis by (intro consensus_event_ok) simp_all
next
  case (Full st)
  with assms(2) have "full_event E sm st re = Ok (sm_state sm', pe, effs)" by (auto simp: handle_event_def)
  with Full assms(1) show ?thesis by (intro full_event_ok) simp_all
next
  case (CatchupConsensus st)
  with assms(2) have "catchup_consensus_event E sm st re d = (d', Ok (sm_state sm', pe, effs))"
    by (auto simp: handle_event_def split: prod.splits)
  with CatchupConsensus assms(1) show ?thesis by (intro catchup_consensus_event_ok) simp_all
qed (use assms in \<open>auto simp: handle_event_def split: prod.splits dest!: next_states\<close>)

lemma reach_keeps:
  "reach E sm0 sm hist \<Longrightarrow> sm_f sm = sm_f sm0 \<and> sm_nodes sm = sm_nodes sm0 \<and> sm_generator sm = sm_generator sm0"
  by (induction rule: reach.induct) (auto dest!: handle_event_keeps_ids)

lemma reach_ok: "reach E sm0 sm hist \<Longrightarrow> sm_state sm0 = Start \<Longrightarrow> state_ok E hist (sm_state sm)"
  by (induction rule: reach.induct) (auto intro: handle_event_ok)

section \<open>Positive answers are backed\<close>

lemma quorum_has_honest:
  assumes "distinct (map node s)" "f < length s" "finite faulty" "card faulty \<le> f"
  obtains a where "a \<in> set s" "node a \<notin> faulty"
proof -
  have "card (node ` set s) = length s" using assms(1) by (metis distinct_card length_map set_map)
  moreover have "card (node ` set s) \<le> card faulty" if "node ` set s \<subseteq> faulty"
    using card_mono [OF assms(3) that] .
  ultimately have "\<not> node ` set s \<subseteq> faulty" using assms(2,4) by linarith
  with that show thesis by blast
qed

lemma ok_in_send_replies [simp]:
  "SubmitAck i (Ok msg) \<in> set (send_replies ids m) \<longleftrightarrow> i \<in> set ids \<and> m = Ok msg"
  "SubmitAck i (Ok msg) \<in> set (send_ok_replies ids s) \<longleftrightarrow> i \<in> set ids \<and> s = msg"
  "SubmitAck i (Ok msg) \<notin> set (finish_request ids)"
  by (auto simp: send_replies_def send_ok_replies_def finish_request_def)

lemma consensus_reply_positive:
  assumes "consensus_reply E sm st m n rid = Ok (s, pe, effs)" "SubmitAck i (Ok msg) \<in> set effs"
  obtains v where "msg = m" "result_of E m = Some v" "sm_f sm < length (hset_insert n (entry_set v (co_replies st)))"
  using assms
  by (auto simp: consensus_reply_def Let_def result_of_def split: outcome.splits prod.splits if_splits)

lemma consensus_event_positive:
  assumes "consensus_event E sm st re = Ok (s, pe, effs)" "SubmitAck i (Ok msg) \<in> set effs"
  obtains n v where "answer_of re = Some (n, msg)" "result_of E msg = Some v"
    "sm_f sm < length (hset_insert n (entry_set v (co_replies st)))"
proof (cases "answer_of re")
  case (Some nm)
  obtain n m where nm: "nm = (n, m)" by (cases nm)
  with Some assms(1) obtain rid where "consensus_reply E sm st m n rid = Ok (s, pe, effs)" by (cases re) auto
  from consensus_reply_positive [OF this assms(2)] that Some nm show thesis by metis
next
  case None
  with assms show thesis by (cases re) (auto simp: consensus_timeout_def Let_def split: if_splits)
qed

text \<open>
  C3: A positive answer of a request to a quorum is the answer of an honest node. In every run of the
  machine from its start, with at most \<open>f\<close> faulty nodes, a message that is passed to the user as the
  answer has a result that some node outside the faulty ones sent as well.
\<close>

theorem consensus_answer_is_honest:
  assumes "reach E (RequestSM_new E f ids nodes g name t0 t1) sm hist" "sm_state sm = Consensus st"
    and "handle_event E t sm re d = (d', Ok (sm', pe, effs))" "SubmitAck i (Ok msg) \<in> set effs"
    and "finite faulty" "card faulty \<le> f"
  shows "\<exists>v node m. node \<notin> faulty \<and> result_of E msg = Some v \<and> answered E (hist @ [re]) v node m"
proof -
  from assms(2,3) have ev: "consensus_event E sm st re = Ok (sm_state sm', pe, effs)" by (auto simp: handle_event_def)
  have f: "sm_f sm = f" using reach_keeps [OF assms(1)] by (simp add: RequestSM_new_def)
  from reach_ok [OF assms(1)] assms(2) have ok: "state_ok E hist (Consensus st)" by (simp add: RequestSM_new_def)
  from consensus_event_positive [OF ev assms(4)] f obtain n v where nv: "answer_of re = Some (n, msg)"
    "result_of E msg = Some v" "f < length (hset_insert n (entry_set v (co_replies st)))" by metis
  note new = consensus_insert_ok [OF ok nv(1,2)]
  from new(2) have "distinct (map (\<lambda>n. n) (hset_insert n (entry_set v (co_replies st))))" by simp
  from quorum_has_honest [OF this nv(3) assms(5,6)] obtain node where
    "node \<in> set (hset_insert n (entry_set v (co_replies st)))" "node \<notin> faulty" .
  with new(3) nv(2) show ?thesis by blast
qed

text \<open>A run for the witnesses: two nodes of four have answered alike.\<close>

abbreviation sample_sm :: RequestSM where
  "sample_sm \<equiv> RequestSM_new plain_request_env 1 [7] four_nodes None ''p'' 20 60"

definition run_handle :: "RequestSM \<Rightarrow> RequestEvent list \<Rightarrow> (RequestSM \<times> effect list) IndyResult" where
  "run_handle sm es = run_steps (\<lambda>sm re. bind_outcome (snd (handle_event plain_request_env 0 sm re (genesis_dir []))) (\<lambda>(sm', _, effs). Ok (sm', effs))) sm es"

lemma reach_run:
  "run_handle sm es = Ok (sm', effs) \<Longrightarrow> reach plain_request_env sm0 sm hist \<Longrightarrow> reach plain_request_env sm0 sm' (hist @ es)"
  unfolding run_handle_def
proof (induction es arbitrary: sm hist effs)
  case (Cons re es)
  then obtain sm1 pe xs ys where s: "snd (handle_event plain_request_env 0 sm re (genesis_dir [])) = Ok (sm1, pe, xs)"
    "run_steps (\<lambda>sm re. bind_outcome (snd (handle_event plain_request_env 0 sm re (genesis_dir []))) (\<lambda>(sm', _, effs). Ok (sm', effs))) sm1 es = Ok (sm', ys)"
    by auto
  then have "handle_event plain_request_env 0 sm re (genesis_dir []) =
    (fst (handle_event plain_request_env 0 sm re (genesis_dir [])), Ok (sm1, pe, xs))" by (metis prod.collapse)
  from reach.step [OF Cons.prems(2) this] Cons.IH [OF s(2)] show ?case by fastforce
qed simp

lemma handle_fst_snd:
  "snd (handle_event E t sm re d) = Ok (sm', pe, effs) \<Longrightarrow>
   handle_event E t sm re d = (fst (handle_event E t sm re d), Ok (sm', pe, effs))"
  by (metis prod.collapse)

lemma reach_from_start:
  assumes "is_ok (run_handle sm es)"
  shows "reach plain_request_env sm (fst (the (ok_val (run_handle sm es)))) es"
proof -
  from is_ok_val [OF assms] have "run_handle sm es = Ok (fst (the (ok_val (run_handle sm es))), snd (the (ok_val (run_handle sm es))))"
    by simp
  from reach_run [OF this reach.init] show ?thesis by simp
qed

theorem consensus_answer_is_honest_witness:
  "\<exists>v node m. node \<notin> {''B''} \<and> result_of plain_request_env ''r'' = Some v \<and>
     answered plain_request_env ([Re_CustomConsensusRequest ''q'' ''1'', Re_Reply sample_reply ''r'' ''A'' ''1''] @
       [Re_Reply sample_reply ''r'' ''B'' ''1'']) v node m"
proof -
  let ?es = "[Re_CustomConsensusRequest ''q'' ''1'', Re_Reply sample_reply ''r'' ''A'' ''1'']"
    and ?re = "Re_Reply sample_reply ''r'' ''B'' ''1''"
  let ?sm = "fst (the (ok_val (run_handle sample_sm ?es)))"
  have ok: "is_ok (run_handle sample_sm ?es)" by code_simp
  have st: "sm_state ?sm = Consensus \<lparr>co_denied_nodes = [], co_replies = [(JString ''r'', [''A''])], co_timeout_nodes = []\<rparr>"
    by code_simp
  have "snd (handle_event plain_request_env 0 ?sm ?re (genesis_dir [])) =
    Ok (?sm\<lparr>sm_state := Finish\<rparr>, None, [SubmitAck 7 (Ok ''r''), Net (Ne_CleanTimeout ''1'' None)])"
    by code_simp
  from handle_fst_snd [OF this] have h: "handle_event plain_request_env 0 ?sm ?re (genesis_dir []) =
    (fst (handle_event plain_request_env 0 ?sm ?re (genesis_dir [])),
     Ok (?sm\<lparr>sm_state := Finish\<rparr>, None, [SubmitAck 7 (Ok ''r''), Net (Ne_CleanTimeout ''1'' None)]))" .
  show ?thesis by (rule consensus_answer_is_honest [OF reach_from_start [OF ok] st h, of 7]) simp_all
qed

section \<open>Requests to one node\<close>

text \<open>The message chosen among the responses of a quorum is one with the greatest time of signature.\<close>

lemma soonest_msg_in:
  assumes "rs \<noteq> []"
  obtains r where "r \<in> set rs" "soonest_msg E raw rs = nr_raw_msg r" "\<forall>r' \<in> set rs. nr_timestamp r' \<le> nr_timestamp r"
proof -
  let ?rs = "sort_key (\<lambda>r. node_rank E (nr_node_alias r)) rs"
  have "?rs \<noteq> []" using assms by (metis set_empty set_sort)
  then have "max_by_key nr_timestamp ?rs \<noteq> None" by simp
  then obtain r where r: "max_by_key nr_timestamp ?rs = Some r" by blast
  from max_by_key_Some [OF r] that [of r] r show thesis by (simp add: soonest_msg_def)
qed

definition fresh_proof :: "'e request_env_scheme \<Rightarrow> nat \<Rightarrow> RequestSM \<Rightarrow> string \<Rightarrow> bool" where
  "fresh_proof E t sm msg =
     (\<exists>result v signed bound. get_msg_result_without_state_proof E msg = Ok (result, v) \<and>
        check_state_proof E result (sm_f sm) (sm_generator sm) (sm_nodes sm) msg = Ok True \<and>
        get_last_signed_time (ledger_message E) msg = Ok signed \<and>
        usize_add (build_profile E) (freshness_threshold E) (case signed of Some s \<Rightarrow> s | None \<Rightarrow> 0) = (Ok bound :: nat IndyResult) \<and>
        t \<le> bound)"

lemma no_ok_in_continue:
  "single_continue sm st rid n = Ok (s, pe, effs) \<Longrightarrow> SubmitAck i (Ok msg) \<notin> set effs"
  by (auto simp: single_continue_def try_to_continue_def split: if_splits)

lemma single_reply_positive:
  assumes run: "single_reply E t sm st m n rid = Ok (s, pe, effs)" and pos: "SubmitAck i (Ok msg) \<in> set effs"
  shows "fresh_proof E t sm msg \<or>
    (\<exists>v ts rs. result_of E m = Some v \<and>
       rs = response_insert \<lparr>nr_raw_msg = m, nr_node_alias = n, nr_timestamp = ts\<rparr> (entry_set v (si_replies st)) \<and>
       sm_f sm < length rs \<and> msg = soonest_msg E m rs)"
proof (cases "get_msg_result_without_state_proof E m")
  case (Ok rv)
  obtain r v where rv: "rv = (r, v)" by (cases rv)
  from run Ok rv obtain signed where signed: "get_last_signed_time (ledger_message E) m = Ok signed"
    by (auto simp: single_reply_def Let_def)
  define ts where "ts = (case signed of Some s \<Rightarrow> s | None \<Rightarrow> 0)"
  define rs where "rs = response_insert \<lparr>nr_raw_msg = m, nr_node_alias = n, nr_timestamp = ts\<rparr> (entry_set v (si_replies st))"
  note defs = ts_def [symmetric] rs_def [symmetric]
  show ?thesis
  proof (cases "sm_f sm < length rs")
    case True
    with run Ok rv signed pos have "msg = soonest_msg E m rs"
      by (auto simp: single_reply_def Let_def defs)
    with True result_of_Ok [OF Ok [unfolded rv]] rs_def show ?thesis by blast
  next
    case False
    let ?check = "bind_outcome (check_state_proof E r (sm_f sm) (sm_generator sm) (sm_nodes sm) m)
      (\<lambda>proved. if proved then bind_outcome (usize_add (build_profile E) (freshness_threshold E) ts) (\<lambda>bound. Ok (t \<le> bound))
                else Ok False)"
    from False run Ok rv signed obtain accepted st' where acc: "?check = Ok accepted"
      and s: "(if accepted then Ok (Finish, None, Net (Ne_CleanTimeout rid None) # send_ok_replies (sm_cmd_ids sm) m)
               else single_continue sm st' rid n) = Ok (s, pe, effs)"
      by (simp add: single_reply_def Let_def defs del: bind_eq_Ok cong: if_cong) (unfold bind_eq_Ok, blast)
    from s pos no_ok_in_continue have "accepted" "msg = m" by (auto split: if_splits)
    with acc obtain bound where "check_state_proof E r (sm_f sm) (sm_generator sm) (sm_nodes sm) m = Ok True" "t \<le> bound"
      "usize_add (build_profile E) (freshness_threshold E) ts = (Ok bound :: nat IndyResult)" by (auto split: if_splits)
    with \<open>msg = m\<close> Ok rv signed ts_def show ?thesis by (auto simp: fresh_proof_def)
  qed
qed (use run pos no_ok_in_continue in \<open>auto simp: single_reply_def Let_def\<close>)

lemma single_backed:
  assumes "reach E (RequestSM_new E f ids nodes g name t0 t1) sm hist" "sm_state sm = Single st"
    and "handle_event E t sm re d = (d', Ok (sm', pe, effs))" "SubmitAck i (Ok msg) \<in> set effs"
    and "finite faulty" "card faulty \<le> f"
  shows "fresh_proof E t sm msg \<or>
    (\<exists>v node m. node \<notin> faulty \<and> result_of E msg = Some v \<and> answered E (hist @ [re]) v node m)"
proof (cases "fresh_proof E t sm msg")
  case False
  from assms(2,3) have ev: "single_event E t sm st re = Ok (sm_state sm', pe, effs)" by (auto simp: handle_event_def)
  have f: "sm_f sm = f" using reach_keeps [OF assms(1)] by (simp add: RequestSM_new_def)
  from reach_ok [OF assms(1)] assms(2) have ok: "state_ok E hist (Single st)" by (simp add: RequestSM_new_def)
  from ev assms(4) no_ok_in_continue obtain n m rid where nm: "answer_of re = Some (n, m)"
    "single_reply E t sm st m n rid = Ok (sm_state sm', pe, effs)" by (cases re) auto
  from single_reply_positive [OF nm(2) assms(4)] False obtain v ts rs where v: "result_of E m = Some v"
    "rs = response_insert \<lparr>nr_raw_msg = m, nr_node_alias = n, nr_timestamp = ts\<rparr> (entry_set v (si_replies st))"
    "sm_f sm < length rs" "msg = soonest_msg E m rs" by blast
  from single_insert_ok [OF ok nm(1) v(1,2)] have rs: "distinct (map nr_node_alias rs)"
    "\<forall>x \<in> set rs. response_given E (hist @ [re]) x v" by simp_all
  from v(3) f quorum_has_honest [OF rs(1) _ assms(5,6)] obtain a where a: "a \<in> set rs" "nr_node_alias a \<notin> faulty" by blast
  then have "rs \<noteq> []" by auto
  from soonest_msg_in [OF this, of E m] v(4) obtain b where "b \<in> set rs" "msg = nr_raw_msg b" by metis
  with rs(2) have "result_of E msg = Some v" by (auto simp: answered_def)
  with a rs(2) show ?thesis by blast
qed simp

text \<open>
  A positive answer of a request to a single node is backed. In every run from the start, the
  message passed to the user carries a verified state proof that is fresh at that time, or, with at
  most \<open>f\<close> faulty nodes, it has a result that some node outside the faulty ones sent as well.
\<close>

theorem single_answer_is_backed:
  assumes "reach E (RequestSM_new E f ids nodes g name t0 t1) sm hist" "sm_state sm = Single st"
    and "handle_event E t sm re d = (d', Ok (sm', pe, effs))" "SubmitAck i (Ok msg) \<in> set effs"
    and "finite faulty" "card faulty \<le> f"
  shows "fresh_proof E t sm msg \<or>
    (\<exists>v node m. node \<notin> faulty \<and> result_of E msg = Some v \<and> answered E (hist @ [re]) v node m)"
  using assms by (rule single_backed)

theorem single_answer_is_backed_witness:
  "fresh_proof plain_request_env 0 (fst (the (ok_val (run_handle sample_sm
       [Re_CustomSingleRequest ''q'' ''1'', Re_Reply sample_reply ''r'' ''A'' ''1''])))) ''r'' \<or>
   (\<exists>v node m. node \<notin> {''B''} \<and> result_of plain_request_env ''r'' = Some v \<and>
     answered plain_request_env ([Re_CustomSingleRequest ''q'' ''1'', Re_Reply sample_reply ''r'' ''A'' ''1''] @
       [Re_Reply sample_reply ''r'' ''B'' ''1'']) v node m)"
proof -
  let ?es = "[Re_CustomSingleRequest ''q'' ''1'', Re_Reply sample_reply ''r'' ''A'' ''1'']"
    and ?re = "Re_Reply sample_reply ''r'' ''B'' ''1''"
  let ?sm = "fst (the (ok_val (run_handle sample_sm ?es)))"
  have ok: "is_ok (run_handle sample_sm ?es)" by code_simp
  have st: "sm_state ?sm = Single \<lparr>si_denied_nodes = [],
      si_replies = [(JString ''r'', [\<lparr>nr_raw_msg = ''r'', nr_node_alias = ''A'', nr_timestamp = 0\<rparr>])], si_timeout_nodes = []\<rparr>"
    by code_simp
  have "snd (handle_event plain_request_env 0 ?sm ?re (genesis_dir [])) =
    Ok (?sm\<lparr>sm_state := Finish\<rparr>, None, [Net (Ne_CleanTimeout ''1'' None), SubmitAck 7 (Ok ''r'')])"
    by code_simp
  from handle_fst_snd [OF this] have h: "handle_event plain_request_env 0 ?sm ?re (genesis_dir []) =
    (fst (handle_event plain_request_env 0 ?sm ?re (genesis_dir [])),
     Ok (?sm\<lparr>sm_state := Finish\<rparr>, None, [Net (Ne_CleanTimeout ''1'' None), SubmitAck 7 (Ok ''r'')]))" .
  show ?thesis by (rule single_answer_is_backed [OF reach_from_start [OF ok] st h, of 7]) simp_all
qed

section \<open>Requests to all nodes\<close>

lemma full_event_positive:
  assumes "state_ok E hist (Full st)" "full_event E sm st re = Ok (s, pe, effs)" "SubmitAck i (Ok msg) \<in> set effs"
  obtains kvs where "gathered (hist @ [re]) kvs" "msg = json_to_string E (JObject kvs)" "length kvs = required_replies sm st"
proof (cases "feedback re")
  case (Some nr)
  then obtain n r where "feedback re = Some (n, r)" by (cases nr) simp
  from full_event_step [OF assms(1,2) this] that assms(3) show thesis by cases auto
next
  case None
  with assms show thesis by (cases re) auto
qed

text \<open>
  C16: The answer of a request to all nodes is complete. It is the JSON object of one entry for each of
  as many different nodes as were asked, and every entry is a message that node sent, or the text
  \<open>timeout\<close> for a node whose timeout was reported.
\<close>

theorem full_answer_is_complete:
  assumes "reach E (RequestSM_new E f ids nodes g name t0 t1) sm hist" "sm_state sm = Full st"
    and "handle_event E t sm re d = (d', Ok (sm', pe, effs))" "SubmitAck i (Ok msg) \<in> set effs"
  shows "\<exists>kvs. msg = json_to_string E (JObject kvs) \<and> distinct (map fst kvs) \<and>
    length kvs = (case nodes_to_send st of Some ns \<Rightarrow> length ns | None \<Rightarrow> length nodes) \<and>
    (\<forall>(n, v) \<in> set kvs. \<exists>r. v = JString r \<and> Some (n, r) \<in> feedback ` set (hist @ [re]))"
proof -
  from assms(2,3) have ev: "full_event E sm st re = Ok (sm_state sm', pe, effs)" by (auto simp: handle_event_def)
  from reach_ok [OF assms(1)] assms(2) have ok: "state_ok E hist (Full st)" by (simp add: RequestSM_new_def)
  from reach_keeps [OF assms(1)] have nodes: "sm_nodes sm = nodes" by (simp add: RequestSM_new_def)
  from full_event_positive [OF ok ev assms(4)] nodes obtain kvs where "gathered (hist @ [re]) kvs"
    "msg = json_to_string E (JObject kvs)"
    "length kvs = (case nodes_to_send st of Some ns \<Rightarrow> length ns | None \<Rightarrow> length nodes)" by metis
  then show ?thesis unfolding gathered_def using btree_ok_distinct by blast
qed

theorem full_answer_is_complete_witness:
  "\<exists>kvs. ''object'' = json_to_string plain_request_env (JObject kvs) \<and> distinct (map fst kvs) \<and>
    length kvs = (case None :: string list option of Some ns \<Rightarrow> length ns | None \<Rightarrow> length [(''A'', None :: VerKey option)]) \<and>
    (\<forall>(n, v) \<in> set kvs. \<exists>r. v = JString r \<and>
       Some (n, r) \<in> feedback ` set ([Re_CustomFullRequest ''q'' ''1'' None None] @ [Re_Timeout ''1'' ''A'']))"
proof -
  let ?start = "RequestSM_new plain_request_env 0 [7] [(''A'', None)] None ''p'' 20 60"
    and ?es = "[Re_CustomFullRequest ''q'' ''1'' None None]" and ?re = "Re_Timeout ''1'' ''A''"
  let ?sm = "fst (the (ok_val (run_handle ?start ?es)))"
  have ok: "is_ok (run_handle ?start ?es)" by code_simp
  have st: "sm_state ?sm = Full \<lparr>accum_reply = None, nodes_to_send = None\<rparr>" by code_simp
  have "snd (handle_event plain_request_env 0 ?sm ?re (genesis_dir [])) =
    Ok (?sm\<lparr>sm_state := Finish\<rparr>, None, [Net (Ne_CleanTimeout ''1'' None), SubmitAck 7 (Ok ''object'')])"
    by code_simp
  from full_answer_is_complete [OF reach_from_start [OF ok] st handle_fst_snd [OF this], of 7 "''object''"]
  show ?thesis by simp
qed

text \<open>
  C36: A request to a list of nodes that names a node twice never finishes by answers. The machine waits
  for as many different nodes as the list is long, so feedback of the listed nodes alone never ends it.
\<close>

theorem repeated_node_never_finishes:
  assumes "reach E (RequestSM_new E f ids nodes g name t0 t1) sm hist" "sm_state sm = Full st"
    and "handle_event E t sm re d = (d', Ok (sm', pe, effs))" "nodes_to_send st = Some ns" "\<not> distinct ns"
    and "\<forall>ev \<in> set (hist @ [re]). \<forall>n r. feedback ev = Some (n, r) \<longrightarrow> n \<in> set ns" "re \<noteq> Re_Terminate"
  shows "sm_state sm' \<noteq> Finish"
proof
  assume fin: "sm_state sm' = Finish"
  from assms(2,3) have "full_event E sm st re = Ok (sm_state sm', pe, effs)" by (auto simp: handle_event_def)
  with fin have ev: "full_event E sm st re = Ok (Finish, pe, effs)" by simp
  from reach_ok [OF assms(1)] assms(2) have ok: "accum_ok hist (accum_reply st)" by (simp add: RequestSM_new_def)
  from ev assms(7) obtain n r where nr: "feedback re = Some (n, r)" by (cases re) auto
  have "state_ok E hist (Full st)" using ok by simp
  from full_event_step [OF this ev nr] obtain kvs where kvs: "gathered (hist @ [re]) kvs" "length kvs = length ns"
    using assms(4) by cases simp_all
  have "fst ` set kvs \<subseteq> set ns"
  proof
    fix x assume "x \<in> fst ` set kvs"
    then obtain v where "(x, v) \<in> set kvs" by force
    with kvs(1) obtain r' where "Some (x, r') \<in> feedback ` set (hist @ [re])" unfolding gathered_def by blast
    then obtain ev where "ev \<in> set (hist @ [re])" "feedback ev = Some (x, r')" by (metis imageE)
    with assms(6) show "x \<in> set ns" by blast
  qed
  then have "length kvs \<le> card (set ns)"
    using kvs(1) btree_ok_distinct card_mono [of "set ns" "fst ` set kvs"]
    by (metis distinct_card finite_set gathered_def length_map set_map)
  moreover have "card (set ns) < length ns" using assms(5) card_distinct card_length le_neq_implies_less by blast
  ultimately show False using kvs(2) by simp
qed

theorem repeated_node_never_finishes_witness:
  "sm_state (fst (the (ok_val (run_handle sample_sm
     [Re_CustomFullRequest ''q'' ''1'' None (Some ''nodes''), Re_Timeout ''1'' ''A''])))) \<noteq> Finish"
proof -
  let ?es = "[Re_CustomFullRequest ''q'' ''1'' None (Some ''nodes'')]" and ?re = "Re_Timeout ''1'' ''A''"
  let ?sm = "fst (the (ok_val (run_handle sample_sm ?es)))"
    and ?sm' = "fst (the (ok_val (run_handle sample_sm (?es @ [Re_Timeout ''1'' ''A'']))))"
  have ok: "is_ok (run_handle sample_sm ?es)" by code_simp
  have st: "sm_state ?sm = Full \<lparr>accum_reply = None, nodes_to_send = Some [''A'', ''A'']\<rparr>" by code_simp
  have "snd (handle_event plain_request_env 0 ?sm ?re (genesis_dir [])) =
    Ok (?sm', None, [Net (Ne_CleanTimeout ''1'' (Some ''A''))])"
    by code_simp
  from repeated_node_never_finishes [OF reach_from_start [OF ok] st handle_fst_snd [OF this], of "[''A'', ''A'']"]
  show ?thesis by simp
qed

end
