(* ===== verification/Catchup_Reply.thy ===== *)
theory Catchup_Reply
  imports Request_Quorum
begin

text \<open>
  The two steps of a catch-up. The machine reports a target only when an honest node voted for it, and
  it reports the ledger as synchronised only after the transactions of a reply, in ascending order,
  have turned the local ledger into a prefix of the target ledger and have been written to the cache.
\<close>

section \<open>The target\<close>

lemma process_target_found:
  assumes "process_catchup_target E r sz p n st f cnt d = (st', d', Ok (fin, Some (Pe_CatchupTargetFound root m mt)))"
  shows "check_nodes_responses_on_status E (cc_replies st') (cc_merkle_tree st') cnt f d = (d', Ok (ShouldBeStarted root m mt))"
  using assms
  by (auto simp: process_catchup_target_def Let_def split: prod.splits outcome.splits CatchupProgress.splits)

lemma catchup_target_found:
  assumes "catchup_target_handle_consensus_state E sm st r sz p n rid d = (d', Ok (s, Some (Pe_CatchupTargetFound root m mt), effs))"
  obtains st' d2 where "st' = fst (process_catchup_target E r sz p n st (sm_f sm) (length (sm_nodes sm)) d)"
    "check_nodes_responses_on_status E (cc_replies st') (cc_merkle_tree st') (length (sm_nodes sm)) (sm_f sm) d =
       (d2, Ok (ShouldBeStarted root m mt))"
proof -
  obtain st' d2 res where q: "process_catchup_target E r sz p n st (sm_f sm) (length (sm_nodes sm)) d = (st', d2, res)"
    by (metis prod_cases3)
  with assms obtain fin where "res = Ok (fin, Some (Pe_CatchupTargetFound root m mt))"
    by (auto simp: catchup_target_handle_consensus_state_def split: if_splits option.splits PoolEvent.splits)
  with q process_target_found [of E r sz p n st "sm_f sm" "length (sm_nodes sm)" d st' d2 fin root m mt] that show thesis by simp
qed

lemma voters_distinct:
  assumes "hmap_ok nv" "replies_ok (\<lambda>n. n) P nv"
  shows "list_all (\<lambda>(_, s). distinct s) nv"
  using assms hmap_get_in [OF assms(1)] by (fastforce simp: list_all_iff replies_ok_def)

text \<open>
  C8: A catch-up target reported to the pool was voted for by an honest node. In every run of the
  machine from its start, with at most \<open>f\<close> faulty nodes, a node outside the faulty ones sent a ledger
  status or a consistency proof for exactly that root and size; the target is longer than the tree it
  comes with, and a consistency proof in the vote was accepted for that tree.
\<close>

theorem catchup_target_is_honest:
  assumes "reach E (RequestSM_new E f ids nodes g name t0 t1) sm hist" "sm_state sm = CatchupConsensus st"
    and "handle_event E t sm re d = (d', Ok (sm', Some (Pe_CatchupTargetFound root m mt), effs))"
    and "finite faulty" "card faulty \<le> f"
  shows "\<exists>node root58 proofs. node \<notin> faulty \<and> voted (hist @ [re]) node (root58, m, proofs) \<and>
    root58 \<noteq> ''timeout'' \<and> from_base58 E root58 = Some root \<and> mt_count mt < m \<and>
    (case proofs of None \<Rightarrow> True | Some proofs' \<Rightarrow> check_cons_proofs E mt proofs' root m = Ok ())"
proof -
  from assms(2,3) have ev: "catchup_consensus_event E sm st re d = (d', Ok (sm_state sm', Some (Pe_CatchupTargetFound root m mt), effs))"
    by (auto simp: handle_event_def split: prod.splits)
  have f: "sm_f sm = f" using reach_keeps [OF assms(1)] by (simp add: RequestSM_new_def)
  from reach_ok [OF assms(1)] assms(2) have ok: "state_ok E hist (CatchupConsensus st)" by (simp add: RequestSM_new_def)
  from ev obtain n r sz p where v: "vote_of re = Some (n, (r, sz, p))"
    by (cases "(E, sm, st, re, d)" rule: catchup_consensus_event.cases) auto
  from catchup_event_vote [OF ev v] obtain rid where "catchup_target_handle_consensus_state E sm st r sz p n rid d =
    (d', Ok (sm_state sm', Some (Pe_CatchupTargetFound root m mt), effs))" .
  from catchup_target_found [OF this] obtain st' d2 where
    st': "st' = fst (process_catchup_target E r sz p n st (sm_f sm) (length (sm_nodes sm)) d)"
    "check_nodes_responses_on_status E (cc_replies st') (cc_merkle_tree st') (length (sm_nodes sm)) (sm_f sm) d =
       (d2, Ok (ShouldBeStarted root m mt))" .
  have ok': "state_ok E (hist @ [re]) (CatchupConsensus st')"
    using votes_insert_ok [OF ok v] st'(1) by (simp only: process_target_state)
  then have votes: "hmap_ok (cc_replies st')" "replies_ok (\<lambda>n. n) (voted (hist @ [re])) (cc_replies st')" by simp_all
  from agreed_target_honest [OF st'(2) voters_distinct [OF votes] assms(4)] assms(5) f obtain root58 proofs voters node where
    h: "((root58, m, proofs), voters) \<in> set (cc_replies st')" "root58 \<noteq> ''timeout''" "from_base58 E root58 = Some root"
    "node \<in> set voters" "node \<notin> faulty" "mt_count mt < m"
    "case proofs of None \<Rightarrow> True | Some proofs' \<Rightarrow> check_cons_proofs E mt proofs' root m = Ok ()" by blast
  from votes(2) hmap_get_in [OF votes(1) h(1)] h(4) have "voted (hist @ [re]) node (root58, m, proofs)"
    by (simp add: replies_ok_def)
  with h show ?thesis by blast
qed

abbreviation status_for :: "string \<Rightarrow> nat \<Rightarrow> LedgerStatus" where
  "status_for root n \<equiv> \<lparr>txnSeqNo = n, merkleRoot = root, ls_ledgerId = 0, ppSeqNo = None, viewNo = None, protocolVersion = None\<rparr>"

theorem catchup_target_is_honest_witness:
  "let mt = the (ok_val (from_vec pad_hash [[1]])); s = status_for ''root'' 3;
     hist = [Re_LedgerStatus s None (Some mt), Re_LedgerStatus s (Some ''A'') None] in
   \<exists>node root58 proofs. node \<notin> {''A''} \<and> voted (hist @ [Re_LedgerStatus s (Some ''B'') None]) node (root58, 3, proofs) \<and>
    root58 \<noteq> ''timeout'' \<and> from_base58 plain_request_env root58 = Some (into_bytes ''root'') \<and> mt_count mt < 3 \<and>
    (case proofs of None \<Rightarrow> True | Some proofs' \<Rightarrow> check_cons_proofs plain_request_env mt proofs' (into_bytes ''root'') 3 = Ok ())"
proof -
  let ?mt = "the (ok_val (from_vec pad_hash [[1]]))" and ?s = "status_for ''root'' 3"
  let ?es = "[Re_LedgerStatus ?s None (Some ?mt), Re_LedgerStatus ?s (Some ''A'') None]"
    and ?re = "Re_LedgerStatus ?s (Some ''B'') None"
  let ?sm = "fst (the (ok_val (run_handle sample_sm ?es)))"
  have ok: "is_ok (run_handle sample_sm ?es)" by code_simp
  have st: "sm_state ?sm = CatchupConsensus \<lparr>cc_replies = [((''root'', 3, None), [''A''])], cc_merkle_tree = ?mt\<rparr>" by code_simp
  have "snd (handle_event plain_request_env 0 ?sm ?re (genesis_dir [])) =
    Ok (?sm\<lparr>sm_state := Finish\<rparr>, Some (Pe_CatchupTargetFound (into_bytes ''root'') 3 ?mt), [Net (Ne_CleanTimeout ''root'' None)])"
    by code_simp
  from catchup_target_is_honest [OF reach_from_start [OF ok] st handle_fst_snd [OF this], of "{''A''}"]
  show ?thesis by (simp only: Let_def) simp
qed

section \<open>The reply\<close>

text \<open>The transactions of a reply in ascending order of their numbers.\<close>

definition canonical :: "(string, json) hmap \<Rightarrow> bool" where
  "canonical m = (\<forall>k \<in> fst ` set m. \<exists>n < 2 ^ 64. k = usize_to_string n)"

lemma hmap_remove_keys: "fst ` set (hmap_remove k m) = fst ` set m - {k}"
proof -
  have "x \<in> fst ` set (hmap_remove k m) \<longleftrightarrow> x \<in> fst ` set m - {k}" for x
    using hmap_get_None_iff [of x "hmap_remove k m"] hmap_get_None_iff [of x m] by (cases "x = k") auto
  then show ?thesis by blast
qed

lemma reply_loop_step:
  assumes "catchup_reply_loop E rep mt acc = Ok (mt', ts)" "txns rep \<noteq> []"
  obtains n v b mt1 where "n = Min (seq_nos (txns rep))" "keys_parse (txns rep)"
    "hmap_get (usize_to_string n) (txns rep) = Some v" "rmp_to_vec (codecs E) v = Some b" "append (sha E) mt b = Ok mt1"
    "catchup_reply_loop E (rep\<lparr>txns := hmap_remove (usize_to_string n) (txns rep)\<rparr>) mt1 (acc @ [b]) = Ok (mt', ts)"
proof -
  have mt: "min_tx rep = (if keys_parse (txns rep) then Ok (Min (seq_nos (txns rep))) else Err InvalidStructure)"
    using assms(2) by (simp add: min_tx_def min_tx_loop_spec Let_def seq_nos_empty)
  show thesis
  proof (cases "keys_parse (txns rep)")
    case True
    with assms mt that [of "Min (seq_nos (txns rep))"] show thesis
      by (subst (asm) catchup_reply_loop.simps) (auto split: option.splits outcome.splits)
  next
    case False
    with assms mt show thesis by (subst (asm) catchup_reply_loop.simps) simp
  qed
qed

lemma seq_nos_Min:
  assumes "keys_parse m" "m \<noteq> []"
  shows "Min (seq_nos m) \<in> seq_nos m" "Min (seq_nos m) < 2 ^ 64"
proof -
  show "Min (seq_nos m) \<in> seq_nos m" using assms seq_nos_empty by (intro Min_in) auto
  then show "Min (seq_nos m) < 2 ^ 64" using parse_usize_bound by (auto simp: seq_nos_def)
qed

lemma reply_loop_canonical:
  "catchup_reply_loop E rep mt acc = Ok (mt', ts) \<Longrightarrow> canonical (txns rep)"
proof (induction "length (txns rep)" arbitrary: rep mt acc rule: less_induct)
  case less
  show ?case
  proof (cases "txns rep = []")
    case True
    then show ?thesis by (simp add: canonical_def)
  next
    case False
    from reply_loop_step [OF less.prems False] obtain n v b mt1 where s: "n = Min (seq_nos (txns rep))" "keys_parse (txns rep)"
      "hmap_get (usize_to_string n) (txns rep) = Some v"
      "catchup_reply_loop E (rep\<lparr>txns := hmap_remove (usize_to_string n) (txns rep)\<rparr>) mt1 (acc @ [b]) = Ok (mt', ts)" .
    have "canonical (hmap_remove (usize_to_string n) (txns rep))"
      using less.hyps [OF _ s(4)] hmap_remove_shorter [OF s(3)] by simp
    moreover have "n < 2 ^ 64" using seq_nos_Min [OF s(2) False] s(1) by simp
    ultimately show ?thesis unfolding canonical_def hmap_remove_keys by blast
  qed
qed

lemma seq_nos_canonical:
  assumes "canonical m"
  shows "n \<in> seq_nos m \<longleftrightarrow> n < 2 ^ 64 \<and> usize_to_string n \<in> fst ` set m"
proof
  assume "n \<in> seq_nos m"
  then obtain k where k: "k \<in> fst ` set m" "parse_usize k = Some n" by (auto simp: seq_nos_def)
  with assms obtain n' where "n' < 2 ^ 64" "k = usize_to_string n'" by (auto simp: canonical_def)
  with k show "n < 2 ^ 64 \<and> usize_to_string n \<in> fst ` set m" by simp
next
  assume "n < 2 ^ 64 \<and> usize_to_string n \<in> fst ` set m"
  then show "n \<in> seq_nos m" unfolding seq_nos_def using parse_usize_to_string [of n] by force
qed

lemma seq_nos_remove:
  assumes "canonical m" "n < 2 ^ 64"
  shows "seq_nos (hmap_remove (usize_to_string n) m) = seq_nos m - {n}"
proof -
  have "canonical (hmap_remove (usize_to_string n) m)"
    using assms(1) unfolding canonical_def hmap_remove_keys by blast
  then show ?thesis
    using assms by (auto simp: seq_nos_canonical hmap_remove_keys usize_to_string_inj)
qed

text \<open>What the loop does when it ends: it appends the encoded transactions in ascending order.\<close>

definition reply_txns :: "'e request_env_scheme \<Rightarrow> (string, json) hmap \<Rightarrow> bytes list" where
  "reply_txns E m = map (\<lambda>n. the (rmp_to_vec (codecs E) (the (hmap_get (usize_to_string n) m)))) (sorted_list_of_set (seq_nos m))"

lemma sorted_list_Min:
  fixes S :: "nat set"
  assumes "finite S" "S \<noteq> {}"
  shows "sorted_list_of_set S = Min S # sorted_list_of_set (S - {Min S})"
  using sorted_list_of_set_nonempty [OF assms] by simp

lemma reply_loop_appends:
  "catchup_reply_loop E rep mt acc = Ok (mt', ts) \<Longrightarrow>
   ts = acc @ reply_txns E (txns rep) \<and> append_all (append (sha E)) mt (reply_txns E (txns rep)) = Ok mt'"
proof (induction "length (txns rep)" arbitrary: rep mt acc rule: less_induct)
  case less
  show ?case
  proof (cases "txns rep = []")
    case True
    with less.prems show ?thesis
      by (subst (asm) catchup_reply_loop.simps) (simp add: reply_txns_def seq_nos_def)
  next
    case False
    from reply_loop_step [OF less.prems False] obtain n v b mt1 where s: "n = Min (seq_nos (txns rep))" "keys_parse (txns rep)"
      "hmap_get (usize_to_string n) (txns rep) = Some v" "rmp_to_vec (codecs E) v = Some b" "append (sha E) mt b = Ok mt1"
      "catchup_reply_loop E (rep\<lparr>txns := hmap_remove (usize_to_string n) (txns rep)\<rparr>) mt1 (acc @ [b]) = Ok (mt', ts)" .
    let ?m = "hmap_remove (usize_to_string n) (txns rep)"
    have n: "n < 2 ^ 64" using seq_nos_Min [OF s(2) False] s(1) by simp
    have rem: "seq_nos ?m = seq_nos (txns rep) - {n}" by (rule seq_nos_remove [OF reply_loop_canonical [OF less.prems] n])
    have "usize_to_string k \<noteq> usize_to_string n" if "k \<in> seq_nos ?m" for k
      using that usize_to_string_inj [OF _ n] parse_usize_bound unfolding rem by (auto simp: seq_nos_def)
    then have "reply_txns E ?m = map (\<lambda>k. the (rmp_to_vec (codecs E) (the (hmap_get (usize_to_string k) (txns rep))))) (sorted_list_of_set (seq_nos ?m))"
      unfolding reply_txns_def by (intro map_cong) simp_all
    moreover have "sorted_list_of_set (seq_nos (txns rep)) = n # sorted_list_of_set (seq_nos ?m)"
      using sorted_list_Min [of "seq_nos (txns rep)"] seq_nos_empty [OF s(2)] False by (simp add: rem s(1) [symmetric])
    ultimately have "reply_txns E (txns rep) = b # reply_txns E ?m"
      using s(3,4) by (simp add: reply_txns_def)
    moreover from less.hyps [OF _ s(6)] hmap_remove_shorter [OF s(3)]
    have "ts = (acc @ [b]) @ reply_txns E ?m" "append_all (append (sha E)) mt1 (reply_txns E ?m) = Ok mt'" by simp_all
    ultimately show ?thesis using s(5) by simp
  qed
qed

lemma process_reply_Ok:
  assumes "process_catchup_reply E rep mt root n d = (d', Ok mt')"
  shows "append_all (append (sha E)) mt (reply_txns E (txns rep)) = Ok mt' \<and>
    check_cons_proofs E mt' (consProof rep) root n = Ok () \<and> dump_new_txns (codecs E) (reply_txns E (txns rep)) d = (d', Ok ())"
proof -
  from assms obtain mt1 ts where l: "catchup_reply_loop E rep mt [] = Ok (mt1, ts)"
    "check_cons_proofs E mt1 (consProof rep) root n = Ok ()"
    "(let (d', r) = dump_new_txns (codecs E) ts d in (d', bind_outcome r (\<lambda>_. Ok mt1))) = (d', Ok mt')"
    by (auto simp: process_catchup_reply_def split: outcome.splits)
  from l(3) have "dump_new_txns (codecs E) ts d = (d', Ok ())" "mt1 = mt'"
    by (auto split: prod.splits)
  with l(2) reply_loop_appends [OF l(1)] show ?thesis by simp
qed

lemma synced_by_reply:
  assumes "catchup_single_event E sm st re d = (d', Ok (s, Some (Pe_Synced mt'), effs))"
  obtains rep node where "re = Re_CatchupRep rep node"
    "process_catchup_reply E rep (cs_merkle_tree st) (cs_target_mt_root st) (cs_target_mt_size st) d = (d', Ok mt')"
  using assms
  by (cases "(E, sm, st, re, d)" rule: catchup_single_event.cases) (auto split: prod.splits outcome.splits)

text \<open>
  C7: A catch-up ends only with a ledger that agrees with the target. When the machine reports the
  ledger as synchronised, the local transactions \<open>xs\<close> have been extended by those of one reply, in
  ascending order of their numbers; the result is a prefix of the ledger \<open>ys\<close> whose root hash and size
  are the target, unless two of the hashed strings collide; and exactly the new transactions have been
  written to the cache.
\<close>

theorem synced_ledger_is_prefix:
  assumes "digest_length (sha E)" "sm_state sm = CatchupSingle st" "from_vec (sha E) xs = Ok (cs_merkle_tree st)"
    and "mth (sha E) ys = Some (cs_target_mt_root st)" "cs_target_mt_size st = length ys"
    and "handle_event E t sm re d = (d', Ok (sm', Some (Pe_Synced mt'), effs))"
  shows "\<exists>rep node new bs. re = Re_CatchupRep rep node \<and> new = reply_txns E (txns rep) \<and>
    from_vec (sha E) (xs @ new) = Ok mt' \<and> dump_new_txns (codecs E) new d = (d', Ok ()) \<and>
    map_outcome (\<lambda>p. ok_or (from_base58 E p) InvalidStructure) (consProof rep) = Ok bs \<and>
    (xs @ new = take (length (xs @ new)) ys \<or>
     collision (sha E) (mth_inputs (sha E) (xs @ new) \<union> mth_inputs (sha E) ys \<union>
       consistency_inputs (sha E) (length (xs @ new)) (root_hash mt') (length ys) bs))"
proof -
  from assms(2,6) have "catchup_single_event E sm st re d = (d', Ok (sm_state sm', Some (Pe_Synced mt'), effs))"
    by (auto simp: handle_event_def split: prod.splits)
  from synced_by_reply [OF this] obtain rep node where re: "re = Re_CatchupRep rep node"
    "process_catchup_reply E rep (cs_merkle_tree st) (cs_target_mt_root st) (cs_target_mt_size st) d = (d', Ok mt')" .
  note run = process_reply_Ok [OF re(2)]
  have built: "from_vec (sha E) (xs @ reply_txns E (txns rep)) = Ok mt'"
    using mt_log.append_all_build [OF assms(3)] run by blast
  from run assms(5) have "check_cons_proofs E mt' (consProof rep) (cs_target_mt_root st) (length ys) = Ok ()" by simp
  from check_cons_proofs_prefix [OF assms(1) built assms(4) this] re(1) built run show ?thesis by metis
qed

lemma handle_reply_synced:
  assumes "sm_state sm = CatchupSingle st"
    and "process_catchup_reply E rep (cs_merkle_tree st) (cs_target_mt_root st) (cs_target_mt_size st) d = (d', Ok mt')"
  shows "handle_event E t sm (Re_CatchupRep rep node) d =
    (d', Ok (sm\<lparr>sm_state := Finish\<rparr>, Some (Pe_Synced mt'), [Net (Ne_CleanTimeout (cs_req_id st) None)]))"
  using assms by (simp add: handle_event_def)

definition sample_target :: "bytes list" where
  "sample_target = [[1], into_bytes ''x'', into_bytes ''y'']"

definition sample_rep :: CatchupRep where
  "sample_rep = \<lparr>rep_ledgerId = 0, consProof = [], txns = [(''3'', JString ''y''), (''2'', JString ''x'')]\<rparr>"

theorem synced_ledger_is_prefix_witness:
  "let root = the (mth pad_hash sample_target); mt' = the (ok_val (from_vec pad_hash sample_target)) in
   \<exists>rep node new bs. Re_CatchupRep sample_rep ''A'' = Re_CatchupRep rep node \<and> new = reply_txns plain_request_env (txns rep) \<and>
    from_vec (sha plain_request_env) ([[1]] @ new) = Ok mt' \<and>
    dump_new_txns (codecs plain_request_env) new (genesis_dir []) =
      (fst (process_catchup_reply plain_request_env sample_rep (the (ok_val (from_vec pad_hash [[1]]))) root 3 (genesis_dir [])), Ok ()) \<and>
    map_outcome (\<lambda>p. ok_or (from_base58 plain_request_env p) InvalidStructure) (consProof rep) = Ok bs \<and>
    ([[1]] @ new = take (length ([[1]] @ new)) sample_target \<or>
     collision (sha plain_request_env) (mth_inputs (sha plain_request_env) ([[1]] @ new) \<union> mth_inputs (sha plain_request_env) sample_target \<union>
       consistency_inputs (sha plain_request_env) (length ([[1]] @ new)) (root_hash mt') (length sample_target) bs))"
proof -
  let ?root = "the (mth pad_hash sample_target)" and ?mt = "the (ok_val (from_vec pad_hash [[1]]))"
    and ?mt' = "the (ok_val (from_vec pad_hash sample_target))"
  let ?st = "\<lparr>cs_target_mt_root = ?root, cs_target_mt_size = 3, cs_merkle_tree = ?mt, cs_req_id = ''23''\<rparr>"
  let ?sm = "sample_sm\<lparr>sm_state := CatchupSingle ?st\<rparr>" and ?re = "Re_CatchupRep sample_rep ''A''"
  let ?d' = "fst (process_catchup_reply plain_request_env sample_rep ?mt ?root 3 (genesis_dir []))"
  have sha: "sha plain_request_env = pad_hash" by (simp add: plain_request_env_def plain_env_def catchup_env.defs)
  have st: "sm_state ?sm = CatchupSingle ?st" by simp
  have "is_ok (from_vec pad_hash [[1]])" by code_simp
  then have mt: "from_vec (sha plain_request_env) [[1]] = Ok (cs_merkle_tree ?st)" using is_ok_val by (simp add: sha)
  have "mth pad_hash sample_target = Some ?root" by code_simp
  then have root: "mth (sha plain_request_env) sample_target = Some (cs_target_mt_root ?st)" by (simp add: sha)
  have sz: "cs_target_mt_size ?st = length sample_target" by (simp add: sample_target_def)
  have "snd (process_catchup_reply plain_request_env sample_rep ?mt ?root 3 (genesis_dir [])) = Ok ?mt'" by code_simp
  then have "process_catchup_reply plain_request_env sample_rep ?mt ?root 3 (genesis_dir []) = (?d', Ok ?mt')" by (metis prod.collapse)
  then have "process_catchup_reply plain_request_env sample_rep (cs_merkle_tree ?st) (cs_target_mt_root ?st)
    (cs_target_mt_size ?st) (genesis_dir []) = (?d', Ok ?mt')" by (simp only: CatchupSingleState.select_convs)
  note h = handle_reply_synced [OF st this]
  have "digest_length (sha plain_request_env)" by (simp add: sha pad_hash_length)
  from synced_ledger_is_prefix [OF this st mt root sz h] show ?thesis unfolding Let_def .
qed

text \<open>
  C37: A node can crash the client during a catch-up. A reply whose keys are all numbers, but whose
  least number is not written in its plain decimal form, makes the step panic.
\<close>

theorem padded_number_panics:
  assumes "sm_state sm = CatchupSingle st" "txns rep \<noteq> []" "keys_parse (txns rep)"
    and "hmap_get (usize_to_string (Min (seq_nos (txns rep)))) (txns rep) = None"
  shows "snd (handle_event E t sm (Re_CatchupRep rep node) d) = Panic"
proof -
  have "min_tx rep = Ok (Min (seq_nos (txns rep)))"
    using assms(2,3) by (simp add: min_tx_def min_tx_loop_spec Let_def seq_nos_empty)
  with assms have "catchup_reply_loop E rep (cs_merkle_tree st) [] = Panic"
    by (subst catchup_reply_loop.simps) simp
  with assms(1) show ?thesis by (simp add: handle_event_def process_catchup_reply_def)
qed

theorem padded_number_panics_witness:
  "snd (handle_event plain_request_env 0
     (sample_sm\<lparr>sm_state := CatchupSingle \<lparr>cs_target_mt_root = [], cs_target_mt_size = 3,
        cs_merkle_tree = the (ok_val (from_vec pad_hash [[1]])), cs_req_id = ''23''\<rparr>\<rparr>)
     (Re_CatchupRep \<lparr>rep_ledgerId = 0, consProof = [], txns = [(''02'', JNull)]\<rparr> ''A'') (genesis_dir [])) = Panic"
proof -
  let ?m = "[(''02'', JNull)]"
  have "parse_usize ''02'' = Some 2" by code_simp
  then have "keys_parse ?m" "seq_nos ?m = {2}" by (auto simp: keys_parse_def seq_nos_def)
  moreover have "hmap_get (usize_to_string 2) ?m = None" by code_simp
  ultimately show ?thesis by (intro padded_number_panics) simp_all
qed

end
