(* ===== verification/State_Trie.thy ===== *)
theory State_Trie
  imports Json_Value
begin

unbundle bit_operations_syntax

text \<open>
  The Patricia Merkle trie of a state proof (\<open>services/pool/state_proof/node.rs\<close>, with the check of
  one key of \<open>state_proof/mod.rs\<close>). A proof is a list of trie nodes; the client rebuilds a table from
  node hash to node and walks it from the signed root along the nibbles of the key.

  The RLP library and SHA3 are parameters: bytes are read as a tree of items, where bytes that the
  library refuses appear as items \<open>RBad\<close>, and a tree of items is written as bytes.

  The lemmas show that nodes survive writing and reading, that the walk computes the lookup of the
  trie the table stores, that it returns whenever the hashes have no cycle, and that two proofs
  accepted for the same root and key prove the same value.
\<close>

section \<open>RLP items\<close>

datatype rlp = RData bytes | RList "rlp list" | RBad

text \<open>
  \<open>RBad\<close> stands for an item the library cannot decode. It has no prototype here, so a full node with
  such a child is refused; a library that reports some malformed items as data of length 0 would take
  the child for absent instead.
\<close>

datatype RlpPrototype = PData nat | PList nat

fun prototype :: "rlp \<Rightarrow> RlpPrototype option" where
  "prototype (RData b) = Some (PData (length b))"
| "prototype (RList items) = Some (PList (length items))"
| "prototype RBad = None"

fun as_bytes :: "rlp \<Rightarrow> (bytes, unit) outcome" where
  "as_bytes (RData b) = Ok b"
| "as_bytes _ = Err ()"

fun rlp_is_empty :: "rlp \<Rightarrow> bool" where
  "rlp_is_empty (RData b) = (b = [])"
| "rlp_is_empty (RList items) = (items = [])"
| "rlp_is_empty RBad = False"

text \<open>
  \<open>as_list\<close> followed by \<open>unwrap_or_default\<close>: iterating over an item that is no list yields nothing, and
  a list with an element that cannot be decoded becomes the empty list.
\<close>

fun as_list_or_default :: "(rlp \<Rightarrow> ('a, unit) outcome) \<Rightarrow> rlp \<Rightarrow> ('a list, 'e) outcome" where
  "as_list_or_default dec (RList items) =
     (case map_outcome dec items of Ok vs \<Rightarrow> Ok vs | Err _ \<Rightarrow> Ok [] | Panic \<Rightarrow> Panic)"
| "as_list_or_default dec _ = Ok []"

lemma as_list_or_default_no_error: "as_list_or_default dec r \<noteq> Err e"
  by (cases r) (auto split: outcome.splits)

section \<open>Nodes\<close>

datatype Node =
    NodeLeaf bytes bytes
  | NodeExtension bytes Node
  | NodeFull "Node option list" "bytes option"
  | NodeHash bytes

definition RADIX :: nat where "RADIX = 16"
definition FULL_SIZE :: nat where "FULL_SIZE = RADIX + 1"
definition PAIR_SIZE :: nat where "PAIR_SIZE = 2"
definition HASH_SIZE :: nat where "HASH_SIZE = 32"
definition IS_LEAF_MASK :: byte where "IS_LEAF_MASK = 0x20"
definition IS_PATH_ODD_MASK :: byte where "IS_PATH_ODD_MASK = 0x10"

lemmas node_consts = RADIX_def FULL_SIZE_def PAIR_SIZE_def HASH_SIZE_def IS_LEAF_MASK_def IS_PATH_ODD_MASK_def

fun encode_node :: "Node \<Rightarrow> rlp" where
  "encode_node (NodeHash h) = RData h"
| "encode_node (NodeLeaf path value) = RList [RData path, RData value]"
| "encode_node (NodeExtension path next) = RList [RData path, encode_node next]"
| "encode_node (NodeFull nodes value) =
     RList (map (\<lambda>node. case node of Some node \<Rightarrow> encode_node node | None \<Rightarrow> RData []) nodes @
            [case value of Some value \<Rightarrow> RData value | None \<Rightarrow> RData []])"

lemma size_list_item: "x \<in> set items \<Longrightarrow> size x \<le> size_list size items"
  by (rule size_list_estimation') auto

function (sequential) decode_node :: "rlp \<Rightarrow> (Node, unit) outcome" where
  "decode_node (RList items) =
     (if length items = PAIR_SIZE then
        bind_outcome (as_bytes (items ! 0)) (\<lambda>path.
          if path = [] then Panic
          else if path ! 0 AND IS_LEAF_MASK = IS_LEAF_MASK then
            bind_outcome (as_bytes (items ! 1)) (\<lambda>value. Ok (NodeLeaf path value))
          else if path ! 0 AND IS_LEAF_MASK = 0 then
            bind_outcome (decode_node (items ! 1)) (\<lambda>next. Ok (NodeExtension path next))
          else Err ())
      else if length items = FULL_SIZE then
        bind_outcome
          (map_outcome (\<lambda>cur. case prototype cur of
               None \<Rightarrow> Err ()
             | Some p \<Rightarrow> if p = PData 0 then Ok None
                         else bind_outcome (decode_node cur) (\<lambda>node. Ok (Some node)))
             (take RADIX items))
          (\<lambda>nodes.
             if rlp_is_empty (items ! RADIX) then Ok (NodeFull nodes None)
             else bind_outcome (as_bytes (items ! RADIX)) (\<lambda>value. Ok (NodeFull nodes (Some value))))
      else Err ())"
| "decode_node (RData b) = (if length b = HASH_SIZE then Ok (NodeHash b) else Err ())"
| "decode_node RBad = Err ()"
  by pat_completeness auto
termination
proof (relation "measure size", simp_all add: node_consts)
  show "size (items ! Suc 0) < Suc (size_list size items)" if "length items = 2" for items :: "rlp list"
    using size_list_item [of "items ! 1" items] that by simp
  show "size x < Suc (size_list size items)" if "x \<in> set (take 16 items)" for x and items :: "rlp list"
    using size_list_item [OF in_set_takeD [OF that]] by simp
qed

declare decode_node.simps [simp del]

section \<open>Paths\<close>

definition path_to_nibbles :: "bytes \<Rightarrow> bytes" where
  "path_to_nibbles path = concat (map (\<lambda>s. [drop_bit 4 s, s AND 0x0F]) path)"

definition parse_path :: "bytes \<Rightarrow> (bool \<times> bytes) IndyResult" where
  "parse_path path =
     (if path = [] then Panic
      else
        (let is_leaf = (path ! 0 AND IS_LEAF_MASK = IS_LEAF_MASK);
             is_odd = (path ! 0 AND IS_PATH_ODD_MASK = IS_PATH_ODD_MASK);
             nibbles = path_to_nibbles (drop 1 path)
         in Ok (is_leaf, if is_odd then (path ! 0 AND 0x0F) # nibbles else nibbles)))"

section \<open>Lookup\<close>

type_synonym TrieDB = "(bytes, Node) hmap"

text \<open>
  The walk follows hashes through the table, so it may not return; not returning is \<^const>\<open>None\<close>.
\<close>

partial_function (option) get_value_rec :: "Node \<Rightarrow> TrieDB \<Rightarrow> bytes \<Rightarrow> bytes option IndyResult option" where
  "get_value_rec self db path =
     (case self of
        NodeFull nodes value \<Rightarrow>
          if path = [] then Some (Ok value)
          else if length nodes \<le> unat (path ! 0) then Some Panic
          else (case nodes ! unat (path ! 0) of
                  Some next \<Rightarrow> get_value_rec next db (drop 1 path)
                | None \<Rightarrow> Some (Ok None))
      | NodeHash hash \<Rightarrow>
          if length hash \<noteq> HASH_SIZE then Some Panic
          else (case hmap_get hash db of
                  Some next \<Rightarrow> get_value_rec next db path
                | None \<Rightarrow> Some (Err InvalidStructure))
      | NodeLeaf pair_path value \<Rightarrow>
          (case parse_path pair_path of
             Ok (is_leaf, pair_path) \<Rightarrow>
               if \<not> is_leaf then Some (Err InvalidState)
               else if pair_path = path then Some (Ok (Some value))
               else Some (Ok None)
           | Err e \<Rightarrow> Some (Err e)
           | Panic \<Rightarrow> Some Panic)
      | NodeExtension pair_path next \<Rightarrow>
          (case parse_path pair_path of
             Ok (is_leaf, pair_path) \<Rightarrow>
               if is_leaf then Some (Err InvalidState)
               else if take (length pair_path) path = pair_path
               then get_value_rec next db (drop (length pair_path) path)
               else Some (Ok None)
           | Err e \<Rightarrow> Some (Err e)
           | Panic \<Rightarrow> Some Panic))"

declare get_value_rec.simps [code]

record trie_env =
  rlp_view :: "bytes \<Rightarrow> rlp"
  rlp_encode :: "rlp \<Rightarrow> bytes"
  sha3_256 :: "bytes \<Rightarrow> bytes"

definition get_value :: "'e trie_env_scheme \<Rightarrow> Node \<Rightarrow> TrieDB \<Rightarrow> bytes \<Rightarrow> bytes option IndyResult option" where
  "get_value E self db path =
     map_option (\<lambda>r. bind_outcome r (\<lambda>v.
       case v of
         Some v \<Rightarrow>
           bind_outcome (as_list_or_default as_bytes (rlp_view E v)) (\<lambda>vec.
             if length vec = 1 then Ok (Some (last vec)) else Err InvalidStructure)
       | None \<Rightarrow> Ok None))
     (get_value_rec self db (path_to_nibbles path))"

definition get_str_value :: "'e trie_env_scheme \<Rightarrow> Node \<Rightarrow> TrieDB \<Rightarrow> bytes \<Rightarrow> string option IndyResult option" where
  "get_str_value E self db path =
     map_option (\<lambda>r. bind_outcome r (\<lambda>value.
       case value of
         Some vec \<Rightarrow> bind_outcome (ok_or (from_utf8 vec) InvalidStructure) (\<lambda>str. Ok (Some str))
       | None \<Rightarrow> Ok None))
     (get_value E self db path)"

section \<open>The check of one key\<close>

definition trie_hash :: "'e trie_env_scheme \<Rightarrow> Node \<Rightarrow> bytes" where
  "trie_hash E node = sha3_256 E (rlp_encode E (encode_node node))"

definition proof_db :: "'e trie_env_scheme \<Rightarrow> Node list \<Rightarrow> TrieDB" where
  "proof_db E nodes = fold (\<lambda>node map. hmap_insert (trie_hash E node) node map) nodes []"

definition proof_node_list :: "'e trie_env_scheme \<Rightarrow> bytes \<Rightarrow> Node list IndyResult" where
  "proof_node_list E proofs_rlp = as_list_or_default decode_node (rlp_view E proofs_rlp)"

definition verify_proof :: "'e trie_env_scheme \<Rightarrow> bytes \<Rightarrow> bytes \<Rightarrow> bytes \<Rightarrow> string option \<Rightarrow> bool IndyResult option" where
  "verify_proof E proofs_rlp root_hash key expected_value =
     (case proof_node_list E proofs_rlp of
        Ok nodes \<Rightarrow>
          (let map = proof_db E nodes
           in case hmap_get root_hash map of
                Some root \<Rightarrow>
                  map_option (\<lambda>r. case r of
                      Ok value \<Rightarrow> Ok (value = expected_value)
                    | Err _ \<Rightarrow> Ok False
                    | Panic \<Rightarrow> Panic)
                  (get_str_value E root map key)
              | None \<Rightarrow> Some (Ok False))
      | Err e \<Rightarrow> Some (Err e)
      | Panic \<Rightarrow> Some Panic)"

section \<open>Writing and reading nodes\<close>

fun node_ok :: "Node \<Rightarrow> bool" where
  "node_ok (NodeHash h) = (length h = HASH_SIZE)"
| "node_ok (NodeLeaf path value) = (path \<noteq> [] \<and> path ! 0 AND IS_LEAF_MASK = IS_LEAF_MASK)"
| "node_ok (NodeExtension path next) = (path \<noteq> [] \<and> path ! 0 AND IS_LEAF_MASK = 0 \<and> node_ok next)"
| "node_ok (NodeFull nodes value) =
     (length nodes = RADIX \<and> value \<noteq> Some [] \<and>
      (\<forall>node \<in> set nodes. case node of Some node \<Rightarrow> node_ok node | None \<Rightarrow> True))"

definition decode_child :: "rlp \<Rightarrow> (Node option, unit) outcome" where
  "decode_child cur =
     (case prototype cur of
        None \<Rightarrow> Err ()
      | Some p \<Rightarrow> if p = PData 0 then Ok None else bind_outcome (decode_node cur) (\<lambda>node. Ok (Some node)))"

definition decode_full_value :: "rlp \<Rightarrow> Node option list \<Rightarrow> (Node, unit) outcome" where
  "decode_full_value item nodes =
     (if rlp_is_empty item then Ok (NodeFull nodes None)
      else bind_outcome (as_bytes item) (\<lambda>value. Ok (NodeFull nodes (Some value))))"

lemma decode_node_full:
  "length items = FULL_SIZE \<Longrightarrow>
   decode_node (RList items) =
     bind_outcome (map_outcome decode_child (take RADIX items)) (decode_full_value (items ! RADIX))"
  unfolding decode_node.simps(1) decode_child_def [abs_def] decode_full_value_def [abs_def]
  by (simp only: PAIR_SIZE_def) (simp add: FULL_SIZE_def RADIX_def)

lemma decode_child_Some:
  "decode_child cur = Ok (Some node) \<longleftrightarrow> (\<exists>p. prototype cur = Some p \<and> p \<noteq> PData 0 \<and> decode_node cur = Ok node)"
  by (auto simp: decode_child_def split: option.splits)

lemma prototype_encode: "node_ok node \<Longrightarrow> \<exists>p. prototype (encode_node node) = Some p \<and> p \<noteq> PData 0"
  by (cases node) (auto simp: node_consts)

lemma decode_encode_ok: "node_ok node \<Longrightarrow> decode_node (encode_node node) = Ok node"
proof (induction node rule: encode_node.induct)
  case (4 nodes val)
  let ?item = "\<lambda>node. case node of Some node \<Rightarrow> encode_node node | None \<Rightarrow> RData []"
  have len: "length nodes = RADIX" using "4.prems" by simp
  have each: "decode_child (?item node) = Ok node" if "node \<in> set nodes" for node
  proof (cases node)
    case (Some n)
    with "4.prems" that have "node_ok n" by fastforce
    with 4 that Some prototype_encode [of n] show ?thesis by (simp add: decode_child_Some)
  qed (simp add: decode_child_def)
  then have all: "map_outcome decode_child (map ?item nodes) = Ok nodes"
    unfolding map_outcome_map using map_outcome_all_Ok [of nodes "\<lambda>n. decode_child (?item n)" "\<lambda>n. n"] by simp
  have "length (map ?item nodes @ [case val of Some v \<Rightarrow> RData v | None \<Rightarrow> RData []]) = FULL_SIZE"
    using len by (simp add: FULL_SIZE_def)
  from decode_node_full [OF this] all len "4.prems" show ?case
    by (cases val) (simp_all add: nth_append decode_full_value_def)
qed (auto simp: decode_node.simps node_consts)

lemma decode_full:
  assumes pair: "length items \<noteq> PAIR_SIZE" and ok: "decode_node (RList items) = Ok node"
  obtains nodes val where "length items = FULL_SIZE" "map_outcome decode_child (take RADIX items) = Ok nodes"
    "node = NodeFull nodes val" "val \<noteq> Some []"
proof -
  from assms have full: "length items = FULL_SIZE"
    by (simp add: decode_node.simps(1) split: if_splits)
  note ok [unfolded decode_node_full [OF full] bind_eq_Ok]
  then obtain nodes where nodes: "map_outcome decode_child (take RADIX items) = Ok nodes"
    and v: "decode_full_value (items ! RADIX) nodes = Ok node"
    by blast
  from v show thesis
    by (cases "items ! RADIX") (auto simp: decode_full_value_def split: if_splits intro: that [OF full nodes])
qed

lemma decode_node_ok: "decode_node r = Ok node \<Longrightarrow> node_ok node"
proof (induction r arbitrary: node rule: decode_node.induct)
  case (1 items)
  show ?case
  proof (cases "length items = PAIR_SIZE")
    case True
    with 1 show ?thesis by (auto simp: decode_node.simps(1) split: if_splits)
  next
    case False
    from False "1.prems" obtain nodes val where full: "length items = FULL_SIZE"
      and nodes: "map_outcome decode_child (take RADIX items) = Ok nodes"
      and node: "node = NodeFull nodes val" and v: "val \<noteq> Some []"
      by (rule decode_full)
    from nodes have all: "list_all2 (\<lambda>x y. decode_child x = Ok y) (take RADIX items) nodes"
      by (simp add: map_outcome_Ok)
    have "length nodes = RADIX" using list_all2_lengthD [OF all] full by (simp add: node_consts)
    moreover have "case n of Some n \<Rightarrow> node_ok n | None \<Rightarrow> True" if "n \<in> set nodes" for n
    proof (cases n)
      case (Some m)
      from list_all2_right [OF all that] obtain x where x: "x \<in> set (take RADIX items)" "decode_child x = Ok n"
        by blast
      then obtain p where p: "prototype x = Some p" "p \<noteq> PData 0" "decode_node x = Ok m"
        using Some by (auto simp: decode_child_Some)
      with "1.IH"(2) [OF False full x(1) p(1)] Some show ?thesis by simp
    qed simp
    ultimately show ?thesis using node v by auto
  qed
next
  case (2 b)
  then show ?case by (auto simp: decode_node.simps split: if_splits)
next
  case 3
  then show ?case by (simp add: decode_node.simps)
qed

text \<open>
  C19: Encoding a trie node and decoding the result gives the node back exactly when the node is well
  formed: a leaf or extension path starts with the matching flag byte, a hash has 32 bytes, a full
  node has 16 children and no empty value, and so on for the nodes inside.
\<close>

theorem node_roundtrip: "decode_node (encode_node node) = Ok node \<longleftrightarrow> node_ok node"
  using decode_encode_ok decode_node_ok by blast

section \<open>The bindings of a trie\<close>

text \<open>
  The bindings of the trie that a node and a table of nodes represent, stated without the walk.
\<close>

inductive binds :: "TrieDB \<Rightarrow> Node \<Rightarrow> bytes \<Rightarrow> bytes \<Rightarrow> bool" for db where
  binds_leaf: "parse_path p = Ok (True, path) \<Longrightarrow> binds db (NodeLeaf p v) path v"
| binds_ext: "parse_path p = Ok (False, ns) \<Longrightarrow> binds db next path v \<Longrightarrow> binds db (NodeExtension p next) (ns @ path) v"
| binds_value: "binds db (NodeFull nodes (Some v)) [] v"
| binds_child: "unat x < length nodes \<Longrightarrow> nodes ! unat x = Some next \<Longrightarrow> binds db next path v \<Longrightarrow>
    binds db (NodeFull nodes value) (x # path) v"
| binds_hash: "length h = HASH_SIZE \<Longrightarrow> hmap_get h db = Some next \<Longrightarrow> binds db next path v \<Longrightarrow>
    binds db (NodeHash h) path v"

inductive_cases binds_leafE: "binds db (NodeLeaf p w) path v"
inductive_cases binds_extE: "binds db (NodeExtension p next) path v"
inductive_cases binds_fullE: "binds db (NodeFull nodes value) path v"
inductive_cases binds_hashE: "binds db (NodeHash h) path v"

lemmas binds_elims = binds_leafE binds_extE binds_fullE binds_hashE

lemma binds_found: "binds db node path v \<Longrightarrow> get_value_rec node db path = Some (Ok (Some v))"
proof (induction rule: binds.induct)
  case (binds_leaf p path v)
  then show ?case by (subst get_value_rec.simps) simp
next
  case (binds_ext p ns nxt path v)
  then show ?case by (subst get_value_rec.simps) simp
next
  case (binds_value nodes v)
  then show ?case by (subst get_value_rec.simps) simp
next
  case (binds_child x nodes nxt path v val)
  then show ?case by (subst get_value_rec.simps) simp
next
  case (binds_hash h nxt path v)
  then show ?case by (subst get_value_rec.simps) simp
qed

lemma found_binds:
  assumes "get_value_rec node db path = Some r"
  shows "r = Ok (Some v) \<longrightarrow> binds db node path v"
proof (rule get_value_rec.raw_induct [OF _ assms, of "\<lambda>node db path r. r = Ok (Some v) \<longrightarrow> binds db node path v"], goal_cases)
  case (1 rec node db path r)
  note IH = 1(1) and body = 1(2)
  have "binds db node path v" if r: "r = Ok (Some v)"
  proof (cases node)
    case (NodeLeaf p w)
    with body r show ?thesis
      by (auto split: outcome.splits if_splits intro: binds_leaf)
  next
    case (NodeExtension p nxt)
    with body r obtain ns where ns: "parse_path p = Ok (False, ns)" "take (length ns) path = ns"
        "rec nxt db (drop (length ns) path) = Some r"
      by (auto split: outcome.splits if_splits)
    with IH r have "binds db nxt (drop (length ns) path) v" by blast
    from binds_ext [OF ns(1) this] ns(2) NodeExtension show ?thesis
      by (metis append_take_drop_id)
  next
    case (NodeFull nodes val)
    with body r IH show ?thesis
      by (cases path) (auto split: option.splits if_splits intro: binds_value binds_child)
  next
    case (NodeHash h)
    with body r IH show ?thesis by (auto split: option.splits if_splits intro: binds_hash)
  qed
  then show ?case ..
qed

lemma walk_finds_bindings: "get_value_rec node db path = Some (Ok (Some v)) \<longleftrightarrow> binds db node path v"
  using binds_found found_binds by blast

section \<open>A small trie\<close>

text \<open>
  An environment for concrete runs: the bytes of an item are joined, a hash is the item padded to 32
  bytes, and a few byte strings stand for proofs of a trie that binds the key \<open>0x12\<close> to \<open>v\<close>.
\<close>

fun join_items :: "rlp \<Rightarrow> bytes" where
  "join_items (RData b) = b"
| "join_items (RList items) = concat (map join_items items)"
| "join_items RBad = []"

definition pad32 :: "bytes \<Rightarrow> bytes" where
  "pad32 b = take 32 (b @ replicate 32 0)"

definition small_leaf :: Node where
  "small_leaf = NodeLeaf [0x32] [7]"

definition small_root :: Node where
  "small_root = NodeExtension [0x11] (NodeHash (pad32 [0x32, 7]))"

definition small_view :: "bytes \<Rightarrow> rlp" where
  "small_view b =
     (if b = [1] then RList [encode_node small_root, encode_node small_leaf]
      else if b = [2] then RList [encode_node small_leaf, encode_node small_root, encode_node (NodeLeaf [0x20] [9])]
      else if b = [3] then RList [encode_node small_leaf, RList [RData [], RData []]]
      else if b = [7] then RList [RData (into_bytes ''v'')]
      else RBad)"

definition small_env :: trie_env where
  "small_env = \<lparr>rlp_view = small_view, rlp_encode = join_items, sha3_256 = pad32\<rparr>"

section \<open>Two accepted proofs\<close>

text \<open>Tables that agree on the hashes both contain give the same results, present or absent.\<close>

definition tables_agree :: "TrieDB \<Rightarrow> TrieDB \<Rightarrow> bool" where
  "tables_agree db db' = (\<forall>h n n'. hmap_get h db = Some n \<longrightarrow> hmap_get h db' = Some n' \<longrightarrow> n = n')"

lemma binds_determines:
  assumes agree: "tables_agree db db'"
  shows "binds db node path v \<Longrightarrow> get_value_rec node db' path = Some (Ok r) \<Longrightarrow> r = Some v"
proof (induction arbitrary: r rule: binds.induct)
  case (binds_leaf p path v)
  from binds_leaf(2) show ?case by (subst (asm) get_value_rec.simps) (simp add: binds_leaf(1))
next
  case (binds_ext p ns nxt path v)
  from binds_ext.prems have "get_value_rec nxt db' path = Some (Ok r)"
    by (subst (asm) get_value_rec.simps) (simp add: binds_ext.hyps)
  then show ?case by (rule binds_ext.IH)
next
  case (binds_value nodes v)
  then show ?case by (subst (asm) get_value_rec.simps) simp
next
  case (binds_child x nodes nxt path v val)
  from binds_child.prems have "get_value_rec nxt db' path = Some (Ok r)"
    by (subst (asm) get_value_rec.simps) (simp add: binds_child.hyps not_le [symmetric] split: if_splits)
  then show ?case by (rule binds_child.IH)
next
  case (binds_hash h nxt path v)
  from binds_hash.prems obtain n' where n': "hmap_get h db' = Some n'" "get_value_rec n' db' path = Some (Ok r)"
    by (subst (asm) get_value_rec.simps) (simp add: binds_hash.hyps split: option.splits)
  with agree binds_hash.hyps have "n' = nxt" by (auto simp: tables_agree_def)
  with n' show ?case by (simp add: binds_hash.IH)
qed

lemma tables_agree_sym: "tables_agree db db' \<Longrightarrow> tables_agree db' db"
  unfolding tables_agree_def by metis

lemma walks_agree:
  assumes agree: "tables_agree db db'"
    and walk: "get_value_rec node db path = Some (Ok r)" and walk': "get_value_rec node db' path = Some (Ok r')"
  shows "r = r'"
proof (cases r)
  case (Some v)
  with walk have "binds db node path v" using found_binds by blast
  from binds_determines [OF agree this walk'] Some show ?thesis by simp
next
  case None
  show ?thesis
  proof (cases r')
    case (Some v)
    with walk' have "binds db' node path v" using found_binds by blast
    from binds_determines [OF tables_agree_sym [OF agree] this walk] Some show ?thesis by simp
  qed (simp add: None)
qed

lemma proof_db_entry: "hmap_get h (proof_db E nodes) = Some n \<Longrightarrow> n \<in> set nodes \<and> trie_hash E n = h"
proof -
  have "hmap_get h (fold (\<lambda>node map. hmap_insert (trie_hash E node) node map) nodes db) = Some n \<Longrightarrow>
      n \<in> set nodes \<and> trie_hash E n = h \<or> hmap_get h db = Some n" for db
  proof (induction nodes arbitrary: db)
    case (Cons a nodes)
    from Cons.IH [of "hmap_insert (trie_hash E a) a db"] Cons.prems show ?case by (auto split: if_splits)
  qed simp
  from this [of "[]"] show "hmap_get h (proof_db E nodes) = Some n \<Longrightarrow> n \<in> set nodes \<and> trie_hash E n = h"
    by (auto simp: proof_db_def)
qed

definition hash_collision :: "'e trie_env_scheme \<Rightarrow> Node list \<Rightarrow> bool" where
  "hash_collision E nodes = (\<exists>n \<in> set nodes. \<exists>m \<in> set nodes. n \<noteq> m \<and> trie_hash E n = trie_hash E m)"

lemma no_collision_agree:
  "\<not> hash_collision E (nodes @ nodes') \<Longrightarrow> tables_agree (proof_db E nodes) (proof_db E nodes')"
  unfolding hash_collision_def tables_agree_def by (metis UnI1 UnI2 proof_db_entry set_append)

text \<open>The value that the bytes bound to a key stand for.\<close>

definition proved_value :: "'e trie_env_scheme \<Rightarrow> bytes option \<Rightarrow> string option IndyResult" where
  "proved_value E r =
     (case r of
        None \<Rightarrow> Ok None
      | Some raw \<Rightarrow>
          bind_outcome (as_list_or_default as_bytes (rlp_view E raw)) (\<lambda>vec.
            if length vec = 1
            then bind_outcome (ok_or (from_utf8 (last vec)) InvalidStructure) (\<lambda>str. Ok (Some str))
            else Err InvalidStructure))"

lemma get_str_value_alt:
  "get_str_value E n db key =
     map_option (\<lambda>r. bind_outcome r (proved_value E)) (get_value_rec n db (path_to_nibbles key))"
proof (cases "get_value_rec n db (path_to_nibbles key)")
  case (Some r)
  then show ?thesis
    by (cases r) (auto simp: get_str_value_def get_value_def proved_value_def bind_assoc split: option.splits intro!: bind_cong)
qed (simp add: get_str_value_def get_value_def)

lemma accepted_proof:
  assumes "verify_proof E proofs root key v = Some (Ok True)"
  obtains nodes n r where "proof_node_list E proofs = Ok nodes" "hmap_get root (proof_db E nodes) = Some n"
    "get_value_rec n (proof_db E nodes) (path_to_nibbles key) = Some (Ok r)" "proved_value E r = Ok v"
proof -
  from assms obtain nodes where nodes: "proof_node_list E proofs = Ok nodes"
    by (auto simp: verify_proof_def split: outcome.splits)
  with assms obtain n where n: "hmap_get root (proof_db E nodes) = Some n"
    by (auto simp: verify_proof_def Let_def split: option.splits)
  with nodes assms obtain z where "get_str_value E n (proof_db E nodes) key = Some z"
      "(case z of Ok w \<Rightarrow> Ok (w = v) | Err _ \<Rightarrow> Ok False | Panic \<Rightarrow> (Panic :: bool IndyResult)) = Ok True"
    by (auto simp: verify_proof_def)
  then have "get_str_value E n (proof_db E nodes) key = Some (Ok v)" by (cases z) simp_all
  then show thesis using that [OF nodes n] by (auto simp: get_str_value_alt)
qed

lemma accepted_bound_iff:
  "verify_proof E proofs root key (Some v) = Some (Ok True) \<longleftrightarrow>
     (\<exists>nodes n raw val. proof_node_list E proofs = Ok nodes \<and> hmap_get root (proof_db E nodes) = Some n \<and>
        binds (proof_db E nodes) n (path_to_nibbles key) raw \<and>
        as_list_or_default as_bytes (rlp_view E raw) = (Ok [val] :: bytes list IndyResult) \<and> from_utf8 val = Some v)"
  (is "?acc \<longleftrightarrow> ?bound")
proof
  assume ?acc
  then obtain nodes n r where p: "proof_node_list E proofs = Ok nodes" "hmap_get root (proof_db E nodes) = Some n"
    "get_value_rec n (proof_db E nodes) (path_to_nibbles key) = Some (Ok r)" "proved_value E r = Ok (Some v)"
    by (rule accepted_proof)
  from p(4) obtain raw val where "r = Some raw" "as_list_or_default as_bytes (rlp_view E raw) = (Ok [val] :: bytes list IndyResult)"
    "from_utf8 val = Some v"
    by (auto simp: proved_value_def length_Suc_conv split: option.splits if_splits)
  with p show ?bound using found_binds by blast
next
  assume ?bound
  then obtain nodes n raw val where p: "proof_node_list E proofs = Ok nodes" "hmap_get root (proof_db E nodes) = Some n"
    "binds (proof_db E nodes) n (path_to_nibbles key) raw"
    "as_list_or_default as_bytes (rlp_view E raw) = (Ok [val] :: bytes list IndyResult)" "from_utf8 val = Some v"
    by blast
  from binds_found [OF p(3)] p show ?acc
    by (simp add: verify_proof_def get_str_value_def get_value_def)
qed

text \<open>Both kinds of claims together: a value is accepted when it is bound, and no value when nothing is.\<close>

lemma accepted_meaning:
  assumes "verify_proof E proofs root key v = Some (Ok True)"
  obtains nodes n where "proof_node_list E proofs = Ok nodes" "hmap_get root (proof_db E nodes) = Some n"
    "case v of
        Some v \<Rightarrow> \<exists>raw val. binds (proof_db E nodes) n (path_to_nibbles key) raw \<and>
          as_list_or_default as_bytes (rlp_view E raw) = (Ok [val] :: bytes list IndyResult) \<and> from_utf8 val = Some v
      | None \<Rightarrow> \<nexists>raw. binds (proof_db E nodes) n (path_to_nibbles key) raw"
proof (cases v)
  case None
  from assms obtain nodes n r where p: "proof_node_list E proofs = Ok nodes" "hmap_get root (proof_db E nodes) = Some n"
    "get_value_rec n (proof_db E nodes) (path_to_nibbles key) = Some (Ok r)" "proved_value E r = Ok v"
    by (rule accepted_proof)
  from p(4) None have "r = None" by (auto simp: proved_value_def split: option.splits if_splits)
  with p(3) have "\<not> binds (proof_db E nodes) n (path_to_nibbles key) raw" for raw using binds_found by fastforce
  with that [OF p(1,2)] None show thesis by simp
next
  case (Some w)
  with assms that show thesis by (auto simp: accepted_bound_iff)
qed

text \<open>
  C11: A proof is accepted for a key and a value exactly when the root hash is the hash of one of its
  nodes and the trie that the nodes represent below it binds the nibbles of the key to the RLP list
  of that one value. Nothing but the bindings of the trie is accepted, and every binding is.
\<close>

theorem accepted_iff_bound:
  "verify_proof E proofs root key (Some v) = Some (Ok True) \<longleftrightarrow>
     (\<exists>nodes n raw val. proof_node_list E proofs = Ok nodes \<and> hmap_get root (proof_db E nodes) = Some n \<and>
        binds (proof_db E nodes) n (path_to_nibbles key) raw \<and>
        as_list_or_default as_bytes (rlp_view E raw) = (Ok [val] :: bytes list IndyResult) \<and> from_utf8 val = Some v)"
  by (rule accepted_bound_iff)

text \<open>
  A root hash and a key determine the proved value: two proofs accepted for them prove the same value,
  or both that the key is absent, unless the nodes of the two proofs contain a hash collision.
\<close>

lemma accepted_values_agree:
  assumes "verify_proof E proofs root key v = Some (Ok True)"
    and "verify_proof E proofs' root key v' = Some (Ok True)"
    and "proof_node_list E proofs = Ok nodes" "proof_node_list E proofs' = Ok nodes'"
    and "\<not> hash_collision E (nodes @ nodes')"
  shows "v = v'"
proof -
  from accepted_proof [OF assms(1)] assms(3) obtain n r where
    1: "hmap_get root (proof_db E nodes) = Some n" "get_value_rec n (proof_db E nodes) (path_to_nibbles key) = Some (Ok r)"
    and v: "proved_value E r = Ok v"
    by (metis outcome.inject(1))
  from accepted_proof [OF assms(2)] assms(4) obtain n' r' where
    2: "hmap_get root (proof_db E nodes') = Some n'" "get_value_rec n' (proof_db E nodes') (path_to_nibbles key) = Some (Ok r')"
    and v': "proved_value E r' = Ok v'"
    by (metis outcome.inject(1))
  have agree: "tables_agree (proof_db E nodes) (proof_db E nodes')" using assms(5) by (rule no_collision_agree)
  with 1(1) 2(1) have "n = n'" by (simp add: tables_agree_def)
  with walks_agree [OF agree 1(2)] 2(2) v v' show ?thesis by simp
qed

section \<open>Termination\<close>

fun node_refs :: "Node \<Rightarrow> bytes set" where
  "node_refs (NodeHash h) = {h}"
| "node_refs (NodeLeaf path value) = {}"
| "node_refs (NodeExtension path next) = node_refs next"
| "node_refs (NodeFull nodes value) =
     (\<Union>node \<in> set nodes. case node of Some node \<Rightarrow> node_refs node | None \<Rightarrow> {})"

text \<open>The references between the nodes of a proof: from the hash of a node to the hashes inside it.\<close>

definition proof_refs :: "'e trie_env_scheme \<Rightarrow> Node list \<Rightarrow> (bytes \<times> bytes) set" where
  "proof_refs E nodes = (\<Union>n \<in> set nodes. (\<lambda>h. (h, trie_hash E n)) ` node_refs n)"

lemma finite_node_refs [simp]: "finite (node_refs n)"
  by (induction n rule: node_refs.induct) (auto split: option.splits)

lemma walk_returns_if_refs:
  assumes "\<And>h path. h \<in> node_refs node \<Longrightarrow> \<exists>r. get_value_rec (NodeHash h) db path = Some r"
  shows "\<exists>r. get_value_rec node db path = Some r"
  using assms
proof (induction node arbitrary: path rule: node_refs.induct)
  case (2 p v)
  show ?case by (subst get_value_rec.simps) (auto split: outcome.splits)
next
  case (3 p nxt)
  then have "\<exists>r. get_value_rec nxt db path = Some r" for path by simp
  then show ?case by (subst get_value_rec.simps) (auto split: outcome.splits)
next
  case (4 nodes v)
  have IH: "\<exists>r. get_value_rec n db path = Some r" if "Some n \<in> set nodes" for n path
  proof (rule "4.IH" [OF that refl])
    fix h path assume "h \<in> node_refs n"
    with that have "h \<in> node_refs (NodeFull nodes v)" by force
    then show "\<exists>r. get_value_rec (NodeHash h) db path = Some r" by (rule "4.prems")
  qed
  show ?case
  proof (subst get_value_rec.simps, simp split: option.splits, intro impI allI)
    fix n assume "\<not> length nodes \<le> unat (path ! 0)" "nodes ! unat (path ! 0) = Some n"
    then have "Some n \<in> set nodes" by (metis not_le nth_mem)
    then show "\<exists>r. get_value_rec n db (drop (Suc 0) path) = Some r" by (rule IH)
  qed
qed simp

lemma walk_returns:
  assumes "acyclic (proof_refs E nodes)"
  shows "\<exists>r. get_value_rec node (proof_db E nodes) path = Some r"
proof (rule walk_returns_if_refs)
  have "finite (proof_refs E nodes)" by (simp add: proof_refs_def)
  then have "wf (proof_refs E nodes)" using assms by (rule finite_acyclic_wf)
  then show "\<exists>r. get_value_rec (NodeHash h) (proof_db E nodes) path = Some r" for h path
  proof (induction h arbitrary: path rule: wf_induct_rule)
    case (less h)
    show ?case
    proof (cases "hmap_get h (proof_db E nodes)")
      case None
      then show ?thesis by (subst get_value_rec.simps) simp
    next
      case (Some n)
      with proof_db_entry have n: "n \<in> set nodes" "trie_hash E n = h" by blast+
      have "\<exists>r. get_value_rec n (proof_db E nodes) path = Some r"
      proof (rule walk_returns_if_refs, rule less)
        fix h' path assume "h' \<in> node_refs n"
        with n show "(h', h) \<in> proof_refs E nodes" by (auto simp: proof_refs_def)
      qed
      with Some show ?thesis by (subst get_value_rec.simps) simp
    qed
  qed
qed

text \<open>
  C18: Checking a proof returns for every root hash, key and expected value, provided the hashes of the
  proof's nodes do not refer to each other in a cycle (a cycle would be a fixed point of SHA3).
\<close>

theorem verify_proof_returns:
  assumes "\<And>nodes. proof_node_list E proofs = Ok nodes \<Longrightarrow> acyclic (proof_refs E nodes)"
  shows "\<exists>r. verify_proof E proofs root key v = Some r"
proof (cases "proof_node_list E proofs :: Node list IndyResult")
  case (Ok nodes)
  then have "\<exists>r. get_value_rec n (proof_db E nodes) (path_to_nibbles key) = Some r" for n
    using walk_returns assms by blast
  with Ok show ?thesis
    by (fastforce simp: verify_proof_def get_str_value_def get_value_def Let_def split: option.splits)
qed (simp_all add: verify_proof_def)

theorem verify_proof_returns_witness:
  "\<exists>r. verify_proof small_env [1] (trie_hash small_env small_root) [0x13] (Some ''v'') = Some r"
proof (rule verify_proof_returns)
  fix nodes
  assume "proof_node_list small_env [1] = Ok nodes"
  moreover have "proof_node_list small_env [1] = Ok [small_root, small_leaf]" by code_simp
  ultimately have nodes: "nodes = [small_root, small_leaf]" by simp
  have "proof_refs small_env [small_root, small_leaf] = {(pad32 [0x32, 7], trie_hash small_env small_root)}"
    by (simp add: proof_refs_def small_root_def small_leaf_def)
  moreover have "pad32 [0x32, 7] \<noteq> trie_hash small_env small_root" by code_simp
  ultimately show "acyclic (proof_refs small_env nodes)" by (simp add: nodes wf_acyclic)
qed

section \<open>Malformed nodes\<close>

text \<open>
  C26: A proof with a two-item node whose path is empty panics, provided that all nodes before it in the
  list decode (otherwise the list is taken to be empty): the first byte of the path is read without a
  check. A single node of the pool can thereby stop the client's pool thread.
\<close>

theorem empty_path_panics:
  assumes "rlp_view E proofs = RList (items @ RList [RData [], item] # rest)"
    and "\<And>i. i \<in> set items \<Longrightarrow> is_ok (decode_node i)"
  shows "verify_proof E proofs root key v = Some Panic"
proof -
  have "map_outcome decode_node items = Ok (map (\<lambda>i. the (ok_val (decode_node i))) items)"
    by (rule map_outcome_all_Ok) (rule is_ok_val [OF assms(2)])
  moreover have "decode_node (RList [RData [], item]) = Panic"
    by (simp add: decode_node.simps PAIR_SIZE_def)
  ultimately have "proof_node_list E proofs = Panic"
    using assms(1) by (simp add: proof_node_list_def map_outcome_append)
  then show ?thesis by (simp add: verify_proof_def)
qed

theorem empty_path_panics_witness: "verify_proof small_env [3] [] [0x12] (Some ''v'') = Some Panic"
proof (rule empty_path_panics)
  show "rlp_view small_env [3] = RList ([encode_node small_leaf] @ RList [RData [], RData []] # [])" by code_simp
  show "is_ok (decode_node i)" if "i \<in> set [encode_node small_leaf]" for i
  proof -
    have "is_ok (decode_node (encode_node small_leaf))" by code_simp
    with that show ?thesis by simp
  qed
qed

end
