(* ===== verification/State_Proof.thy ===== *)
theory State_Proof
  imports State_Trie Pool_Events
begin

text \<open>
  State proofs of replies (\<open>services/pool/state_proof/mod.rs\<close> and the table of parsers in
  \<open>services/pool/mod.rs\<close>): what a reply claims about the ledger's state is turned into keys and values
  to verify, the multi-signature of the state root is checked against the keys of the pool's nodes, and
  every key is looked up in the trie below the signed root.

  \<open>serde_json\<close>, MessagePack, base58, base64, the hash functions and the BLS library are parameters.

  The lemmas show what an accepted proof guarantees: the root is signed by all but \<open>f\<close> of the nodes,
  so by an honest majority, every claimed value is bound in the trie below that root, and a \<open>GET_NYM\<close>
  reply that is accepted repeats the entry the state holds for the identifier it names.
\<close>

section \<open>Environment\<close>

text \<open>
  A registered parser gets the message as a C string and returns whether it succeeded, with the bytes
  of the string it produced, if any.
\<close>

type_synonym sp_parser = "string \<Rightarrow> bool \<times> bytes option"

record sp_env = trie_env +
  sha2_256 :: "bytes \<Rightarrow> bytes"
  base64_encode :: "bytes \<Rightarrow> string"
  base64_decode :: "string \<Rightarrow> bytes option"
  sp_base58_decode :: "string \<Rightarrow> bytes option"
  rmp_to_vec_named :: "json \<Rightarrow> bytes option"
  json_of_str :: "string \<Rightarrow> json option"
  str_of_json :: "json \<Rightarrow> string"
  parsed_sps_of_str :: "string \<Rightarrow> ParsedSP list option"
  node_protocol_version :: nat
  sp_parsers :: "(string, sp_parser) hmap"
  multi_signature_from_bytes :: "bytes \<Rightarrow> bytes option"
  verify_multi_sig :: "bytes \<Rightarrow> bytes \<Rightarrow> bytes list \<Rightarrow> bytes \<Rightarrow> bool option"
  sp_profile :: profile

definition is_node_1_3 :: "'e sp_env_scheme \<Rightarrow> bool" where
  "is_node_1_3 E = (node_protocol_version E = 1)"

definition register_sp_parser :: "'e sp_env_scheme \<Rightarrow> string \<Rightarrow> sp_parser \<Rightarrow> 'e sp_env_scheme IndyResult" where
  "register_sp_parser E xtype parser =
     (if xtype \<in> set REQUESTS_FOR_STATE_PROOFS then Err InvalidStructure
      else Ok (E\<lparr>sp_parsers := hmap_insert xtype parser (sp_parsers E)\<rparr>))"

definition get_sp_parser :: "'e sp_env_scheme \<Rightarrow> string \<Rightarrow> sp_parser option" where
  "get_sp_parser E xtype = hmap_get xtype (sp_parsers E)"

section \<open>Text helpers\<close>

definition hex_digit :: "byte \<Rightarrow> char" where
  "hex_digit d = char_of (if unat d < 10 then 48 + unat d else 87 + unat d)"

definition to_hex :: "bytes \<Rightarrow> string" where
  "to_hex bs = concat (map (\<lambda>b. [hex_digit (drop_bit 4 b), hex_digit (b AND 0x0F)]) bs)"

definition sha256_hex :: "'e sp_env_scheme \<Rightarrow> string \<Rightarrow> string" where
  "sha256_hex E s = to_hex (sha2_256 E (into_bytes s))"

fun is_null :: "json \<Rightarrow> bool" where
  "is_null JNull = True"
| "is_null _ = False"

fun as_array :: "json \<Rightarrow> json list option" where
  "as_array (JArray vs) = Some vs"
| "as_array _ = None"

text \<open>Assignment to an entry, \<open>value[k] = v\<close>; the code assigns to objects only.\<close>

fun json_set :: "string \<Rightarrow> json \<Rightarrow> json \<Rightarrow> json" where
  "json_set k v (JObject kvs) = JObject (btree_insert k v kvs)"
| "json_set k v other = other"

section \<open>Keys and values of built-in replies\<close>

text \<open>A function that returns an \<open>Option\<close> is an outcome here: \<open>Err ()\<close> is \<open>None\<close>, and an assertion panics.\<close>

definition sp_marker :: "'e sp_env_scheme \<Rightarrow> nat \<Rightarrow> string" where
  "sp_marker E n = [if is_node_1_3 E then char_of n else char_of (48 + n)]"

definition sp_key_suffix :: "'e sp_env_scheme \<Rightarrow> json \<Rightarrow> json \<Rightarrow> string \<Rightarrow> (string, unit) outcome" where
  "sp_key_suffix E json_msg parsed_data xtype =
     (if xtype = GET_ATTR then
        (let attr_name = (case as_str (json_index json_msg ''raw'') of Some s \<Rightarrow> Some s | None \<Rightarrow>
                         (case as_str (json_index json_msg ''enc'') of Some s \<Rightarrow> Some s | None \<Rightarrow>
                          as_str (json_index json_msg ''hash'')))
         in case attr_name of
              Some attr_name \<Rightarrow> Ok ('':'' @ sp_marker E 1 @ '':'' @ sha256_hex E attr_name)
            | None \<Rightarrow> Err ())
      else if xtype = GET_CRED_DEF then
        (case (as_str (json_index json_msg ''signature_type''), as_u64 (json_index json_msg ''ref'')) of
           (Some sign_type, Some sch_seq_no) \<Rightarrow>
             (let tag = (if is_node_1_3 E then None else as_str (json_index json_msg ''tag''));
                  tag = (case tag of Some t \<Rightarrow> '':'' @ t | None \<Rightarrow> [])
              in Ok ('':'' @ sp_marker E 3 @ '':'' @ sign_type @ '':'' @ usize_to_string sch_seq_no @ tag))
         | _ \<Rightarrow> Err ())
      else if xtype = GET_NYM then Ok []
      else if xtype = GET_SCHEMA then
        (case (as_str (json_index parsed_data ''name''), as_str (json_index parsed_data ''version'')) of
           (Some name, Some version) \<Rightarrow> Ok ('':'' @ sp_marker E 2 @ '':'' @ name @ '':'' @ version)
         | _ \<Rightarrow> Err ())
      else if xtype = GET_REVOC_REG_DEF then
        (case (as_str (json_index parsed_data ''credDefId''), as_str (json_index parsed_data ''revocDefType''),
               as_str (json_index parsed_data ''tag'')) of
           (Some cred_def_id, Some revoc_def_type, Some tag) \<Rightarrow>
             Ok ('':'' @ sp_marker E 4 @ '':'' @ cred_def_id @ '':'' @ revoc_def_type @ '':'' @ tag)
         | _ \<Rightarrow> Err ())
      else if (xtype = GET_REVOC_REG \<or> xtype = GET_REVOC_REG_DELTA) \<and>
              is_null (json_index (json_index parsed_data ''value'') ''accum_from'') then
        (case as_str (json_index parsed_data ''revocRegDefId'') of
           Some revoc_reg_def_id \<Rightarrow> Ok (sp_marker E 5 @ '':'' @ revoc_reg_def_id)
         | None \<Rightarrow> Err ())
      else Err ())"

definition sp_key_prefix :: "'e sp_env_scheme \<Rightarrow> json \<Rightarrow> string \<Rightarrow> (bytes, unit) outcome" where
  "sp_key_prefix E json_msg xtype =
     (let target = (case as_str (json_index json_msg ''dest'') of Some s \<Rightarrow> Some s | None \<Rightarrow>
                  as_str (json_index json_msg ''origin''))
      in if xtype = GET_NYM then
           (case target of Some target \<Rightarrow> Ok (sha2_256 E (into_bytes target)) | None \<Rightarrow> Err ())
         else if xtype = GET_REVOC_REG \<or> xtype = GET_REVOC_REG_DELTA then Ok []
         else if xtype = GET_REVOC_REG_DEF then
           (case as_str (json_index json_msg ''id'') of
              Some i \<Rightarrow> Ok (into_bytes (takeWhile (\<lambda>c. c \<noteq> CHR '':'') i))
            | None \<Rightarrow> Err ())
         else (case target of Some target \<Rightarrow> Ok (into_bytes target) | None \<Rightarrow> Err ()))"

definition sp_data :: "'e sp_env_scheme \<Rightarrow> json \<Rightarrow> (string option \<times> json, unit) outcome" where
  "sp_data E json_msg =
     (case json_index json_msg ''data'' of
        JNull \<Rightarrow> Ok (None, JNull)
      | JString str \<Rightarrow> (case json_of_str E str of Some parsed_data \<Rightarrow> Ok (Some str, parsed_data) | None \<Rightarrow> Err ())
      | JObject obj \<Rightarrow> Ok (Some (str_of_json E (json_index json_msg ''data'')), JObject obj)
      | _ \<Rightarrow> Err ())"

definition parse_reply_for_proof_value :: "'e sp_env_scheme \<Rightarrow> json \<Rightarrow> string option \<Rightarrow> json \<Rightarrow> string \<Rightarrow>
    (string option, unit) outcome" where
  "parse_reply_for_proof_value E json_msg data parsed_data xtype =
     (case data of
        Some data \<Rightarrow>
          (let seq_no = json_index json_msg ''seqNo''; time = json_index json_msg ''txnTime'';
               value = (if xtype = GET_NYM then json_set ''txnTime'' time (json_set ''seqNo'' seq_no (JObject []))
                        else json_set ''lut'' time (json_set ''lsn'' seq_no (JObject [])));
               done = (\<lambda>value. Ok (Some (str_of_json E value)))
           in if xtype = GET_NYM then
                done (json_set ''verkey'' (json_index parsed_data ''verkey'')
                     (json_set ''role'' (json_index parsed_data ''role'')
                     (json_set ''identifier'' (json_index parsed_data ''identifier'') value)))
              else if xtype = GET_ATTR then done (json_set ''val'' (JString (sha256_hex E data)) value)
              else if xtype = GET_CRED_DEF \<or> xtype = GET_REVOC_REG_DEF \<or> xtype = GET_REVOC_REG
              then done (json_set ''val'' parsed_data value)
              else if xtype = GET_SCHEMA then
                (case parsed_data of
                   JObject obj \<Rightarrow>
                     (let obj = AList.delete ''version'' (AList.delete ''name'' obj)
                      in if obj = [] then Ok None else done (json_set ''val'' (JObject obj) value))
                 | _ \<Rightarrow> Err ())
              else if xtype = GET_REVOC_REG_DELTA
              then done (json_set ''val'' (json_index (json_index parsed_data ''value'') ''accum_to'') value)
              else Err ())
      | None \<Rightarrow> Ok None)"

definition parse_reply_for_builtin_sp :: "'e sp_env_scheme \<Rightarrow> json \<Rightarrow> string \<Rightarrow> (ParsedSP list, unit) outcome" where
  "parse_reply_for_builtin_sp E json_msg xtype =
     (if xtype \<notin> set REQUESTS_FOR_STATE_PROOFS then Panic
      else
        bind_outcome (ok_or (as_str (json_index (json_index json_msg ''state_proof'') ''proof_nodes'')) ()) (\<lambda>proof.
        bind_outcome (ok_or (as_str (json_index (json_index json_msg ''state_proof'') ''root_hash'')) ()) (\<lambda>root_hash.
        bind_outcome (sp_data E json_msg) (\<lambda>(data, parsed_data).
        bind_outcome (sp_key_suffix E json_msg parsed_data xtype) (\<lambda>key_suffix.
        bind_outcome (sp_key_prefix E json_msg xtype) (\<lambda>key_prefix.
          let key = key_prefix @ into_bytes key_suffix
          in bind_outcome (parse_reply_for_proof_value E json_msg data parsed_data xtype) (\<lambda>value.
            Ok [\<lparr>proof_nodes = proof, sp_root_hash = root_hash,
                 kvs_to_verify = Simple [(base64_encode E key, value)],
                 multi_signature = json_index (json_index json_msg ''state_proof'') ''multi_signature''\<rparr>])))))))"

definition parse_generic_reply_for_proof_checking :: "'e sp_env_scheme \<Rightarrow> json \<Rightarrow> string \<Rightarrow> (ParsedSP list, unit) outcome" where
  "parse_generic_reply_for_proof_checking E json_msg raw_msg =
     (case as_str (json_index json_msg ''type'') of
        None \<Rightarrow> Err ()
      | Some xtype \<Rightarrow>
          (if xtype \<in> set REQUESTS_FOR_STATE_PROOFS then parse_reply_for_builtin_sp E json_msg xtype
           else
             (case get_sp_parser E xtype of
                Some parser \<Rightarrow>
                  (if CHR 0x00 \<in> set raw_msg then Err ()
                   else
                     (let (success, parsed_c_str) = parser raw_msg
                      in if \<not> success then Err ()
                         else ok_or (Option.bind (Option.bind parsed_c_str from_utf8) (parsed_sps_of_str E)) ()))
              | None \<Rightarrow> Err ())))"

section \<open>Verification\<close>

definition parse_reply_for_proof_signature_checking :: "'e sp_env_scheme \<Rightarrow> json \<Rightarrow> (string \<times> string list \<times> bytes) option" where
  "parse_reply_for_proof_signature_checking E json_msg =
     (case (as_str (json_index json_msg ''signature''), as_array (json_index json_msg ''participants''),
            rmp_to_vec_named E (json_index json_msg ''value'')) of
        (Some signature, Some participants, Some value) \<Rightarrow>
          (let participants_unwrap = List.map_filter as_str participants
           in if length participants = length participants_unwrap
              then Some (signature, participants_unwrap, value) else None)
      | _ \<Rightarrow> None)"

fun participant_keys :: "string list \<Rightarrow> (string, bytes option) hmap \<Rightarrow> bytes list IndyResult" where
  "participant_keys participants [] = Ok []"
| "participant_keys participants ((name, vk) # nodes) =
     (if name \<in> set participants then
        (case vk of
           Some key \<Rightarrow> bind_outcome (participant_keys participants nodes) (\<lambda>ver_keys. Ok (key # ver_keys))
         | None \<Rightarrow> Err InvalidState)
      else participant_keys participants nodes)"

definition verify_proof_signature :: "'e sp_env_scheme \<Rightarrow> string \<Rightarrow> string list \<Rightarrow> bytes \<Rightarrow> (string, bytes option) hmap \<Rightarrow>
    nat \<Rightarrow> bytes \<Rightarrow> bool IndyResult" where
  "verify_proof_signature E signature participants value nodes f gen =
     bind_outcome (participant_keys participants nodes) (\<lambda>ver_keys.
     bind_outcome (usize_sub (sp_profile E) (length nodes) f) (\<lambda>required.
       if length ver_keys < required then Ok False
       else
         (case sp_base58_decode E signature of
            None \<Rightarrow> Ok False
          | Some signature \<Rightarrow>
              (case multi_signature_from_bytes E signature of
                 None \<Rightarrow> Ok False
               | Some signature \<Rightarrow>
                   Ok (case verify_multi_sig E signature value ver_keys gen of Some res \<Rightarrow> res | None \<Rightarrow> False)))))"

text \<open>The loop over keys and values; \<^const>\<open>None\<close> is a check that does not return.\<close>

fun verify_kvs :: "'e sp_env_scheme \<Rightarrow> bytes \<Rightarrow> bytes \<Rightarrow> (string \<times> string option) list \<Rightarrow> bool IndyResult option" where
  "verify_kvs E nodes_rlp root [] = Some (Ok True)"
| "verify_kvs E nodes_rlp root ((k, v) # kvs) =
     (case base64_decode E k of
        None \<Rightarrow> Some (Ok False)
      | Some key \<Rightarrow>
          (case verify_proof E nodes_rlp root key v of
             Some (Ok True) \<Rightarrow> verify_kvs E nodes_rlp root kvs
           | r \<Rightarrow> r))"

definition verify_one_sp :: "'e sp_env_scheme \<Rightarrow> ParsedSP \<Rightarrow> (string, bytes option) hmap \<Rightarrow> nat \<Rightarrow> bytes \<Rightarrow> bool IndyResult option" where
  "verify_one_sp E sp nodes f gen =
     (if as_str (json_index (json_index (multi_signature sp) ''value'') ''state_root_hash'') \<noteq> Some (sp_root_hash sp)
      then Some (Ok False)
      else
        (case parse_reply_for_proof_signature_checking E (multi_signature sp) of
           None \<Rightarrow> Some (Ok False)
         | Some (signature, participants, value) \<Rightarrow>
             (case verify_proof_signature E signature participants value nodes f gen of
                Panic \<Rightarrow> Some Panic
              | Err _ \<Rightarrow> Some (Ok False)
              | Ok False \<Rightarrow> Some (Ok False)
              | Ok True \<Rightarrow>
                  (case base64_decode E (proof_nodes sp) of
                     None \<Rightarrow> Some (Ok False)
                   | Some nodes_rlp \<Rightarrow>
                       (case sp_base58_decode E (sp_root_hash sp) of
                          None \<Rightarrow> Some (Ok False)
                        | Some root \<Rightarrow>
                            (case kvs_to_verify sp of
                               Simple kvs \<Rightarrow> verify_kvs E nodes_rlp root kvs
                             | SubTrie _ _ \<Rightarrow> Some (Ok False)))))))"

fun verify_parsed_sps :: "'e sp_env_scheme \<Rightarrow> ParsedSP list \<Rightarrow> (string, bytes option) hmap \<Rightarrow> nat \<Rightarrow> bytes \<Rightarrow>
    bool IndyResult option" where
  "verify_parsed_sps E [] nodes f gen = Some (Ok True)"
| "verify_parsed_sps E (sp # sps) nodes f gen =
     (case verify_one_sp E sp nodes f gen of
        Some (Ok True) \<Rightarrow> verify_parsed_sps E sps nodes f gen
      | r \<Rightarrow> r)"

section \<open>What an accepted proof guarantees\<close>

lemma verify_kvs_True:
  "verify_kvs E p root kvs = Some (Ok True) \<longleftrightarrow>
     (\<forall>(k, v) \<in> set kvs. \<exists>key. base64_decode E k = Some key \<and> verify_proof E p root key v = Some (Ok True))"
  by (induction E p root kvs rule: verify_kvs.induct) (auto split: option.splits outcome.splits bool.splits)

lemma verify_parsed_sps_True:
  "verify_parsed_sps E sps nodes f gen = Some (Ok True) \<longleftrightarrow>
     (\<forall>sp \<in> set sps. verify_one_sp E sp nodes f gen = Some (Ok True))"
  by (induction E sps nodes f gen rule: verify_parsed_sps.induct) (auto split: option.splits outcome.splits bool.splits)

text \<open>The check gives a truth value, panics or does not return; it has no error of its own.\<close>

lemma verify_proof_no_error: "verify_proof E p root key v \<noteq> Some (Err e)"
  by (auto simp: verify_proof_def proof_node_list_def as_list_or_default_no_error Let_def split: outcome.splits option.splits)

lemma verify_kvs_no_error: "verify_kvs E p root kvs \<noteq> Some (Err e)"
  by (induction E p root kvs rule: verify_kvs.induct) (auto simp: verify_proof_no_error split: option.splits outcome.splits bool.splits)

lemma verify_one_sp_no_error: "verify_one_sp E sp nodes f gen \<noteq> Some (Err e)"
  by (auto simp: verify_one_sp_def verify_kvs_no_error split: option.splits outcome.splits bool.splits KeyValuesInSP.splits)

lemma verification_gives_no_error: "verify_parsed_sps E sps nodes f gen \<noteq> Some (Err e)"
  by (induction E sps nodes f gen rule: verify_parsed_sps.induct)
     (auto simp: verify_one_sp_no_error split: option.splits outcome.splits bool.splits)

declare verify_kvs.simps [simp del] verify_parsed_sps.simps [simp del]

text \<open>A built-in type gives exactly one proof; only a registered parser can give none.\<close>

lemma builtin_gives_one: "parse_reply_for_builtin_sp E json_msg t = Ok sps \<Longrightarrow> length sps = 1"
  by (auto simp: parse_reply_for_builtin_sp_def Let_def split: if_splits)

lemma no_proofs_from_parser:
  assumes "parse_generic_reply_for_proof_checking E json_msg raw_msg = Ok []"
  shows "\<exists>t parser. as_str (json_index json_msg ''type'') = Some t \<and> t \<notin> set REQUESTS_FOR_STATE_PROOFS \<and>
    get_sp_parser E t = Some parser"
  using assms
  by (auto simp: parse_generic_reply_for_proof_checking_def split: option.splits if_splits dest: builtin_gives_one)

text \<open>The keys collected for a signature are those of the participating nodes, one for each.\<close>

lemma participant_keys_Ok:
  "participant_keys ps nodes = Ok ks \<longleftrightarrow>
     list_all2 (\<lambda>(name, vk) k. vk = Some k) (filter (\<lambda>(name, vk). name \<in> set ps) nodes) ks"
  by (induction ps nodes arbitrary: ks rule: participant_keys.induct)
     (auto simp: list_all2_Cons1 split: option.splits)

lemma participant_keys_member:
  assumes "participant_keys ps nodes = Ok ks" "(name, vk) \<in> set nodes" "name \<in> set ps"
  obtains k where "vk = Some k" "k \<in> set ks"
proof -
  from assms(1) have "list_all2 (\<lambda>(name, vk) k. vk = Some k) (filter (\<lambda>(name, vk). name \<in> set ps) nodes) ks"
    by (simp add: participant_keys_Ok)
  moreover from assms(2,3) have "(name, vk) \<in> set (filter (\<lambda>(name, vk). name \<in> set ps) nodes)" by simp
  ultimately obtain k where "k \<in> set ks" "vk = Some k" by (auto dest: list_all2_left)
  then show thesis by (rule that [rotated])
qed

lemma verify_proof_signature_True:
  assumes "verify_proof_signature E sig ps bs nodes f gen = Ok True"
  obtains ks s ms where "participant_keys ps nodes = Ok ks" "f \<le> length nodes \<Longrightarrow> length nodes - f \<le> length ks"
    "sp_base58_decode E sig = Some s" "multi_signature_from_bytes E s = Some ms" "verify_multi_sig E ms bs ks gen = Some True"
proof -
  from assms obtain ks req where ks: "participant_keys ps nodes = Ok ks"
    and req: "usize_sub (sp_profile E) (length nodes) f = (Ok req :: nat IndyResult)" "\<not> length ks < req"
    and rest: "(case sp_base58_decode E sig of None \<Rightarrow> Ok False | Some signature \<Rightarrow>
              (case multi_signature_from_bytes E signature of None \<Rightarrow> Ok False | Some signature \<Rightarrow>
                   Ok (case verify_multi_sig E signature bs ks gen of Some res \<Rightarrow> res | None \<Rightarrow> False))) = (Ok True :: bool IndyResult)"
    by (auto simp: verify_proof_signature_def split: if_splits)
  from rest obtain s ms where "sp_base58_decode E sig = Some s" "multi_signature_from_bytes E s = Some ms"
      "verify_multi_sig E ms bs ks gen = Some True"
    by (auto split: option.splits)
  moreover have "length nodes - f \<le> length ks" if "f \<le> length nodes"
    using req that by simp
  ultimately show thesis using that [OF ks] by blast
qed

lemma verify_one_sp_True:
  assumes "verify_one_sp E sp nodes f gen = Some (Ok True)"
  obtains sig ps bs nodes_rlp root kvs where
    "as_str (json_index (json_index (multi_signature sp) ''value'') ''state_root_hash'') = Some (sp_root_hash sp)"
    "parse_reply_for_proof_signature_checking E (multi_signature sp) = Some (sig, ps, bs)"
    "verify_proof_signature E sig ps bs nodes f gen = Ok True"
    "base64_decode E (proof_nodes sp) = Some nodes_rlp" "sp_base58_decode E (sp_root_hash sp) = Some root"
    "kvs_to_verify sp = Simple kvs" "verify_kvs E nodes_rlp root kvs = Some (Ok True)"
proof -
  from assms obtain sig ps bs where
    sp: "as_str (json_index (json_index (multi_signature sp) ''value'') ''state_root_hash'') = Some (sp_root_hash sp)"
    "parse_reply_for_proof_signature_checking E (multi_signature sp) = Some (sig, ps, bs)"
    by (auto simp: verify_one_sp_def split: if_splits option.splits)
  with assms have sig: "verify_proof_signature E sig ps bs nodes f gen = Ok True"
    by (auto simp: verify_one_sp_def split: outcome.splits bool.splits)
  with sp assms show thesis
    using that [OF sp sig] by (auto simp: verify_one_sp_def split: option.splits KeyValuesInSP.splits)
qed

lemma signature_value:
  "parse_reply_for_proof_signature_checking E ms = Some (sig, ps, bs) \<Longrightarrow> rmp_to_vec_named E (json_index ms ''value'') = Some bs"
  by (auto simp: parse_reply_for_proof_signature_checking_def Let_def split: option.splits if_splits)

text \<open>
  What the BLS library promises: a valid multi-signature under some keys was made by the owners of the
  keys; the nodes that are not faulty keep their keys to themselves, so they signed the message.
\<close>

definition multi_sig_sound :: "'e sp_env_scheme \<Rightarrow> (string, bytes option) hmap \<Rightarrow> string set \<Rightarrow> (string \<Rightarrow> bytes \<Rightarrow> bool) \<Rightarrow> bool" where
  "multi_sig_sound E nodes faulty has_signed =
     (\<forall>ms m ks g name k. verify_multi_sig E ms m ks g = Some True \<and> k \<in> set ks \<and>
        (name, Some k) \<in> set nodes \<and> name \<notin> faulty \<longrightarrow> has_signed name m)"

section \<open>A sample reply\<close>

text \<open>
  An environment and a reply for concrete runs, over the small trie: text encodings are the identity on
  bytes, and a multi-signature is valid for the message \<open>5\<close> only.
\<close>

definition text_of_bytes :: "bytes \<Rightarrow> string" where
  "text_of_bytes bs = map (\<lambda>b. char_of (unat b)) bs"

lemma into_bytes_text [simp]: "into_bytes (text_of_bytes bs) = bs"
proof -
  have "(of_char (char_of (unat b)) :: byte) = b" for b :: byte
  proof (rule word_unat_eq_iff [THEN iffD2])
    have "unat b < 256" using unsigned_less [of b] by simp
    then show "unat (of_char (char_of (unat b)) :: byte) = unat b" by (simp add: unat_of_char)
  qed
  then show ?thesis by (simp add: text_of_bytes_def into_bytes_def comp_def)
qed

definition sample_sp_env :: sp_env where
  "sample_sp_env = trie_env.extend small_env
     \<lparr>sha2_256 = (\<lambda>_. [0x12]), base64_encode = text_of_bytes, base64_decode = (\<lambda>s. Some (into_bytes s)),
      sp_base58_decode = (\<lambda>s. Some (into_bytes s)), rmp_to_vec_named = (\<lambda>_. Some [5]),
      json_of_str = (\<lambda>_. Some (JObject [(''identifier'', JString ''did'')])), str_of_json = (\<lambda>_. ''v''),
      parsed_sps_of_str = (\<lambda>_. None), node_protocol_version = 2, sp_parsers = [],
      multi_signature_from_bytes = Some, verify_multi_sig = (\<lambda>s m ks g. Some (m = [5])), sp_profile = Debug\<rparr>"

definition sample_root :: string where
  "sample_root = text_of_bytes (trie_hash small_env small_root)"

definition sample_nym :: json where
  "sample_nym = JObject
     [(''data'', JString ''d''), (''dest'', JString ''did''),
      (''state_proof'', JObject
        [(''multi_signature'', JObject
           [(''participants'', JArray [JString ''A'', JString ''B'', JString ''C'']), (''signature'', JString ''s''),
            (''value'', JObject [(''state_root_hash'', JString sample_root)])]),
         (''proof_nodes'', JString [CHR 0x01]), (''root_hash'', JString sample_root)]),
      (''type'', JString GET_NYM)]"

definition sample_sp :: ParsedSP where
  "sample_sp = \<lparr>proof_nodes = [CHR 0x01], sp_root_hash = sample_root,
     kvs_to_verify = Simple [(base64_encode sample_sp_env [0x12], Some ''v'')],
     multi_signature = json_index (json_index sample_nym ''state_proof'') ''multi_signature''\<rparr>"

definition keyed_nodes :: "(string, bytes option) hmap" where
  "keyed_nodes = [(''A'', Some [1]), (''B'', Some [2]), (''C'', Some [3]), (''D'', Some [4])]"

lemma sample_multi_sig: "multi_sig_sound sample_sp_env nodes faulty (\<lambda>name value. value = [5])"
  by (simp add: multi_sig_sound_def sample_sp_env_def trie_env.extend_def)

lemma sample_accepted: "verify_parsed_sps sample_sp_env [sample_sp] keyed_nodes 1 [] = Some (Ok True)"
  by code_simp

text \<open>
  An accepted proof is signed by an honest majority: when at most \<open>f\<close> of at least \<open>3f + 1\<close> nodes are
  faulty, \<open>f + 1\<close> honest nodes signed the value that contains its root hash.
\<close>

lemma honest_signers:
  assumes bls: "multi_sig_sound E nodes faulty has_signed"
    and nodes: "hmap_ok nodes" "3 * f + 1 \<le> length nodes" and faulty: "finite faulty" "card faulty \<le> f"
    and acc: "verify_parsed_sps E sps nodes f gen = Some (Ok True)" and sp: "sp \<in> set sps"
  shows "\<exists>value. rmp_to_vec_named E (json_index (multi_signature sp) ''value'') = Some value \<and>
      as_str (json_index (json_index (multi_signature sp) ''value'') ''state_root_hash'') = Some (sp_root_hash sp) \<and>
      f + 1 \<le> card {name \<in> fst ` set nodes - faulty. has_signed name value}"
proof -
  from acc sp have "verify_one_sp E sp nodes f gen = Some (Ok True)" by (simp add: verify_parsed_sps_True)
  then obtain sig ps bs where root: "as_str (json_index (json_index (multi_signature sp) ''value'') ''state_root_hash'') = Some (sp_root_hash sp)"
    and parsed: "parse_reply_for_proof_signature_checking E (multi_signature sp) = Some (sig, ps, bs)"
    and signature: "verify_proof_signature E sig ps bs nodes f gen = Ok True"
    by (rule verify_one_sp_True)
  from signature obtain ks ms where ks: "participant_keys ps nodes = Ok ks" "length nodes - f \<le> length ks"
    and ms: "verify_multi_sig E ms bs ks gen = Some True"
    using nodes(2) by (elim verify_proof_signature_True) auto
  let ?signers = "filter (\<lambda>(name, vk). name \<in> set ps) nodes"
  let ?good = "{name \<in> fst ` set nodes - faulty. has_signed name bs}"
  have len: "length ks = length ?signers"
    using list_all2_lengthD [OF ks(1) [unfolded participant_keys_Ok]] by simp
  have card: "card (fst ` set ?signers) = length ?signers"
    using distinct_card [OF distinct_map_filter [OF nodes(1)]] by simp
  have "fst ` set ?signers - faulty \<subseteq> ?good"
  proof
    fix name assume "name \<in> fst ` set ?signers - faulty"
    then obtain vk where vk: "(name, vk) \<in> set nodes" "name \<in> set ps" "name \<notin> faulty" by auto
    with ks(1) obtain k where "vk = Some k" "k \<in> set ks" by (blast elim: participant_keys_member)
    with bls [unfolded multi_sig_sound_def] ms vk have "has_signed name bs" by blast
    with vk show "name \<in> ?good" by (auto intro: rev_image_eqI)
  qed
  then have "card (fst ` set ?signers - faulty) \<le> card ?good" by (intro card_mono) auto
  moreover have "card (fst ` set ?signers) - card faulty \<le> card (fst ` set ?signers - faulty)"
    using faulty by (intro diff_card_le_card_Diff) auto
  ultimately have "f + 1 \<le> card ?good" using card len ks(2) nodes(2) faulty(2) by linarith
  with root signature_value [OF parsed] show ?thesis by blast
qed

text \<open>
  C10: Accepted proofs never contradict each other. When two lists of state proofs are accepted, perhaps
  with different nodes and at different times, and both make a statement about the same key below the
  same root hash, they state the same value, unless the nodes of the two proofs contain a hash collision.
\<close>

theorem accepted_replies_agree:
  assumes "verify_parsed_sps E sps nodes f gen = Some (Ok True)" "sp \<in> set sps"
    and "verify_parsed_sps E sps' nodes' f' gen' = Some (Ok True)" "sp' \<in> set sps'"
    and "sp_root_hash sp' = sp_root_hash sp"
    and "kvs_to_verify sp = Simple kvs" "(k, v) \<in> set kvs" "kvs_to_verify sp' = Simple kvs'" "(k, v') \<in> set kvs'"
    and "base64_decode E (proof_nodes sp) = Some p" "proof_node_list E p = Ok ns"
    and "base64_decode E (proof_nodes sp') = Some p'" "proof_node_list E p' = Ok ns'"
    and "\<not> hash_collision E (ns @ ns')"
  shows "v = v'"
proof -
  from assms(1,2) have "verify_one_sp E sp nodes f gen = Some (Ok True)" by (simp add: verify_parsed_sps_True)
  with assms(6,10) obtain root where root: "sp_base58_decode E (sp_root_hash sp) = Some root"
    and kvs: "verify_kvs E p root kvs = Some (Ok True)"
    by (auto elim!: verify_one_sp_True)
  from assms(3,4) have "verify_one_sp E sp' nodes' f' gen' = Some (Ok True)" by (simp add: verify_parsed_sps_True)
  with assms(5,8,12) root have kvs': "verify_kvs E p' root kvs' = Some (Ok True)"
    by (auto elim!: verify_one_sp_True)
  from kvs assms(7) obtain key where key: "base64_decode E k = Some key" "verify_proof E p root key v = Some (Ok True)"
    unfolding verify_kvs_True by fastforce
  with kvs' assms(9) have "verify_proof E p' root key v' = Some (Ok True)"
    unfolding verify_kvs_True by fastforce
  from accepted_values_agree [OF key(2) this assms(11,13,14)] show ?thesis .
qed

theorem accepted_replies_agree_witness:
  "verify_parsed_sps sample_sp_env [sample_sp] keyed_nodes 1 [] = Some (Ok True) \<and> Some ''v'' = Some ''v''"
proof -
  let ?k = "base64_encode sample_sp_env [0x12]"
  have kvs: "kvs_to_verify sample_sp = Simple [(?k, Some ''v'')]" by (simp add: sample_sp_def)
  have other: "verify_parsed_sps sample_sp_env [sample_sp\<lparr>proof_nodes := [CHR 0x02]\<rparr>] keyed_nodes 1 [] = Some (Ok True)"
    by code_simp
  have p: "base64_decode sample_sp_env (proof_nodes sample_sp) = Some [1]" by code_simp
  have p': "base64_decode sample_sp_env (proof_nodes (sample_sp\<lparr>proof_nodes := [CHR 0x02]\<rparr>)) = Some [2]" by code_simp
  have ns: "proof_node_list sample_sp_env [1] = Ok [small_root, small_leaf]" by code_simp
  have ns': "proof_node_list sample_sp_env [2] = Ok [small_leaf, small_root, NodeLeaf [0x20] [9]]" by code_simp
  have no: "\<not> hash_collision sample_sp_env ([small_root, small_leaf] @ [small_leaf, small_root, NodeLeaf [0x20] [9]])" by code_simp
  from accepted_replies_agree [OF sample_accepted _ other _ _ kvs _ _ _ p ns p' ns' no] kvs sample_accepted
  show ?thesis by simp
qed

section \<open>Identifiers\<close>

lemma if_not_Panic: "a \<noteq> Panic \<Longrightarrow> b \<noteq> Panic \<Longrightarrow> (if c then a else b) \<noteq> Panic"
  by simp

lemma sp_data_ok: "sp_data E json_msg \<noteq> Panic"
  unfolding sp_data_def by (cases "json_index json_msg ''data''") (simp_all split: option.split)

lemma sp_key_suffix_ok: "sp_key_suffix E json_msg d t \<noteq> Panic"
  unfolding sp_key_suffix_def by (intro if_not_Panic) (simp_all add: Let_def split: option.split)

lemma sp_key_prefix_ok: "sp_key_prefix E json_msg t \<noteq> Panic"
  unfolding sp_key_prefix_def Let_def by (simp split: option.split)

lemma proof_value_ok: "parse_reply_for_proof_value E json_msg s d t \<noteq> Panic"
  unfolding parse_reply_for_proof_value_def Let_def by (simp split: option.split json.split del: json_set.simps)

text \<open>
  Parsing the proofs of a reply never panics: the assertion on the type of the reply in the parser
  of built-in types cannot fail.
\<close>

lemma parsing_proofs_never_panics: "parse_generic_reply_for_proof_checking E json_msg raw_msg \<noteq> Panic"
proof -
  have no_panic: "sp_data E json_msg \<noteq> Panic" "sp_key_suffix E json_msg d t \<noteq> Panic" "sp_key_prefix E json_msg t \<noteq> Panic"
    "parse_reply_for_proof_value E json_msg s d t \<noteq> Panic" for s d t
    by (rule sp_data_ok sp_key_suffix_ok sp_key_prefix_ok proof_value_ok)+
  then have "parse_reply_for_builtin_sp E json_msg t \<noteq> Panic" if "t \<in> set REQUESTS_FOR_STATE_PROOFS" for t
    using that by (auto simp: parse_reply_for_builtin_sp_def bind_eq_Panic Let_def)
  then show ?thesis
    by (auto simp: parse_generic_reply_for_proof_checking_def Let_def split: option.splits prod.splits)
qed

definition nym_entry :: "'e sp_env_scheme \<Rightarrow> json \<Rightarrow> json \<Rightarrow> string" where
  "nym_entry E json_msg parsed_data = str_of_json E (JObject
     [(''identifier'', json_index parsed_data ''identifier''), (''role'', json_index parsed_data ''role''),
      (''seqNo'', json_index json_msg ''seqNo''), (''txnTime'', json_index json_msg ''txnTime''),
      (''verkey'', json_index parsed_data ''verkey'')])"

text \<open>
  What a \<open>GET_NYM\<close> reply says about itself: the identifier is \<open>dest\<close>, or \<open>origin\<close> when there is no
  \<open>dest\<close>, and the entry is the object in \<open>data\<close> or the value that \<open>data\<close> spells out as a string.
\<close>

definition nym_target :: "json \<Rightarrow> string option" where
  "nym_target json_msg =
     (case as_str (json_index json_msg ''dest'') of Some d \<Rightarrow> Some d | None \<Rightarrow> as_str (json_index json_msg ''origin''))"

definition nym_data :: "'e sp_env_scheme \<Rightarrow> json \<Rightarrow> json option" where
  "nym_data E json_msg =
     (case json_index json_msg ''data'' of JString str \<Rightarrow> json_of_str E str | JObject obj \<Rightarrow> Some (JObject obj) | _ \<Rightarrow> None)"

lemma nym_value:
  assumes "sp_data E json_msg = Ok (data, parsed_data)"
    and "parse_reply_for_proof_value E json_msg data parsed_data GET_NYM = Ok v"
  shows "v = map_option (nym_entry E json_msg) (nym_data E json_msg) \<and>
    (nym_data E json_msg = None \<longrightarrow> json_index json_msg ''data'' = JNull)"
proof (cases "json_index json_msg ''data''")
  case (JObject obj)
  then have "sp_data E json_msg = Ok (Some (str_of_json E (JObject obj)), JObject obj)" by (simp add: sp_data_def)
  with assms(1) have d: "data = Some (str_of_json E (JObject obj))" "parsed_data = JObject obj" by auto
  from assms(2) [unfolded d] JObject show ?thesis
    by (simp add: nym_data_def nym_entry_def parse_reply_for_proof_value_def)
next
  case (JString str)
  with assms obtain d where d: "json_of_str E str = Some d" by (auto simp: sp_data_def split: option.splits)
  with assms(1) JString have e: "data = Some str" "parsed_data = d" by (simp_all add: sp_data_def)
  from assms(2) [unfolded e] JString d show ?thesis
    by (simp add: nym_data_def nym_entry_def parse_reply_for_proof_value_def)
qed (use assms in \<open>simp_all add: sp_data_def nym_data_def parse_reply_for_proof_value_def\<close>)

lemma nym_parsed:
  assumes "as_str (json_index json_msg ''type'') = Some GET_NYM"
    and "parse_generic_reply_for_proof_checking E json_msg raw_msg = Ok sps"
  obtains p r did where "nym_target json_msg = Some did"
    "as_str (json_index (json_index json_msg ''state_proof'') ''proof_nodes'') = Some p"
    "as_str (json_index (json_index json_msg ''state_proof'') ''root_hash'') = Some r"
    "nym_data E json_msg = None \<longrightarrow> json_index json_msg ''data'' = JNull"
    "sps = [\<lparr>proof_nodes = p, sp_root_hash = r,
      kvs_to_verify = Simple [(base64_encode E (sha2_256 E (into_bytes did)), map_option (nym_entry E json_msg) (nym_data E json_msg))],
      multi_signature = json_index (json_index json_msg ''state_proof'') ''multi_signature''\<rparr>]"
proof -
  from assms have builtin: "parse_reply_for_builtin_sp E json_msg GET_NYM = Ok sps"
    by (simp add: parse_generic_reply_for_proof_checking_def REQUESTS_FOR_STATE_PROOFS_def)
  have suffix: "sp_key_suffix E json_msg d GET_NYM = Ok []" for d by (simp add: sp_key_suffix_def)
  have prefix: "sp_key_prefix E json_msg GET_NYM =
      (case nym_target json_msg of Some did \<Rightarrow> Ok (sha2_256 E (into_bytes did)) | None \<Rightarrow> Err ())"
    by (simp add: sp_key_prefix_def nym_target_def)
  from builtin suffix prefix obtain p r did data parsed_data v where
    fields: "nym_target json_msg = Some did" "as_str (json_index (json_index json_msg ''state_proof'') ''proof_nodes'') = Some p"
    "as_str (json_index (json_index json_msg ''state_proof'') ''root_hash'') = Some r"
    and v: "sp_data E json_msg = Ok (data, parsed_data)" "parse_reply_for_proof_value E json_msg data parsed_data GET_NYM = Ok v"
    and sps: "sps = [\<lparr>proof_nodes = p, sp_root_hash = r, kvs_to_verify = Simple [(base64_encode E (sha2_256 E (into_bytes did)), v)],
      multi_signature = json_index (json_index json_msg ''state_proof'') ''multi_signature''\<rparr>]"
    by (auto simp: parse_reply_for_builtin_sp_def into_bytes_def ok_or_def Let_def split: if_splits option.splits)
  from nym_value [OF v] sps show thesis by (intro that [OF fields]) simp_all
qed

text \<open>
  C9: An accepted \<open>GET_NYM\<close> reply repeats the state of the ledger. When the proofs of such a reply are
  accepted, the reply names an identifier (\<open>dest\<close>, or else \<open>origin\<close>), its \<open>proof_nodes\<close> decode to a list
  of nodes, the signed root is the hash of one of them, and below it the trie of those nodes binds the
  hash of the identifier to exactly the entry made of the identifier, role, verification key, sequence
  number and time that the reply reports, whether its \<open>data\<close> is an object or a string that spells one;
  if \<open>data\<close> is null, the trie binds nothing to the identifier. Base64 is taken to decode what it encodes.
\<close>

theorem accepted_nym_is_in_state:
  assumes base64: "\<And>k. base64_decode E (base64_encode E k) = Some k"
    and nym: "as_str (json_index json_msg ''type'') = Some GET_NYM"
    and parsed: "parse_generic_reply_for_proof_checking E json_msg raw_msg = Ok sps"
    and acc: "verify_parsed_sps E sps nodes f gen = Some (Ok True)"
  shows "\<exists>did p nodes_rlp ns r root n.
      (case as_str (json_index json_msg ''dest'') of Some d \<Rightarrow> Some d | None \<Rightarrow> as_str (json_index json_msg ''origin'')) = Some did \<and>
      as_str (json_index (json_index json_msg ''state_proof'') ''proof_nodes'') = Some p \<and>
      base64_decode E p = Some nodes_rlp \<and> proof_node_list E nodes_rlp = Ok ns \<and>
      as_str (json_index (json_index json_msg ''state_proof'') ''root_hash'') = Some r \<and>
      as_str (json_index (json_index (json_index (json_index json_msg ''state_proof'') ''multi_signature'') ''value'') ''state_root_hash'') = Some r \<and>
      sp_base58_decode E r = Some root \<and> hmap_get root (proof_db E ns) = Some n \<and>
      (case nym_data E json_msg of
         Some parsed_data \<Rightarrow> \<exists>raw val. binds (proof_db E ns) n (path_to_nibbles (sha2_256 E (into_bytes did))) raw \<and>
           as_list_or_default as_bytes (rlp_view E raw) = (Ok [val] :: bytes list IndyResult) \<and>
           from_utf8 val = Some (nym_entry E json_msg parsed_data)
       | None \<Rightarrow> json_index json_msg ''data'' = JNull \<and>
           (\<nexists>raw. binds (proof_db E ns) n (path_to_nibbles (sha2_256 E (into_bytes did))) raw))"
proof -
  let ?ms = "json_index (json_index json_msg ''state_proof'') ''multi_signature''"
  let ?v = "map_option (nym_entry E json_msg) (nym_data E json_msg)"
  from nym_parsed [OF nym parsed] obtain p r did where did: "nym_target json_msg = Some did"
    and p: "as_str (json_index (json_index json_msg ''state_proof'') ''proof_nodes'') = Some p"
      "as_str (json_index (json_index json_msg ''state_proof'') ''root_hash'') = Some r"
    and null: "nym_data E json_msg = None \<longrightarrow> json_index json_msg ''data'' = JNull"
    and sps: "sps = [\<lparr>proof_nodes = p, sp_root_hash = r,
      kvs_to_verify = Simple [(base64_encode E (sha2_256 E (into_bytes did)), ?v)], multi_signature = ?ms\<rparr>]" .
  let ?key = "sha2_256 E (into_bytes did)"
  have "verify_one_sp E (hd sps) nodes f gen = Some (Ok True)" using acc [unfolded verify_parsed_sps_True] sps by simp
  then obtain nodes_rlp root where signed_root: "as_str (json_index (json_index ?ms ''value'') ''state_root_hash'') = Some r"
    and rlp: "base64_decode E p = Some nodes_rlp" and root: "sp_base58_decode E r = Some root"
    and kvs: "verify_kvs E nodes_rlp root [(base64_encode E ?key, ?v)] = Some (Ok True)"
    by (rule verify_one_sp_True) (simp add: sps)
  from kvs base64 have verified: "verify_proof E nodes_rlp root ?key ?v = Some (Ok True)" by (simp add: verify_kvs_True)
  obtain ns n where ns: "proof_node_list E nodes_rlp = Ok ns" "hmap_get root (proof_db E ns) = Some n"
    and found: "case ?v of
        Some v \<Rightarrow> \<exists>raw val. binds (proof_db E ns) n (path_to_nibbles ?key) raw \<and>
          as_list_or_default as_bytes (rlp_view E raw) = (Ok [val] :: bytes list IndyResult) \<and> from_utf8 val = Some v
      | None \<Rightarrow> \<nexists>raw. binds (proof_db E ns) n (path_to_nibbles ?key) raw"
    using accepted_meaning [OF verified] .
  from found null have "case nym_data E json_msg of
         Some parsed_data \<Rightarrow> \<exists>raw val. binds (proof_db E ns) n (path_to_nibbles ?key) raw \<and>
           as_list_or_default as_bytes (rlp_view E raw) = (Ok [val] :: bytes list IndyResult) \<and>
           from_utf8 val = Some (nym_entry E json_msg parsed_data)
       | None \<Rightarrow> json_index json_msg ''data'' = JNull \<and> (\<nexists>raw. binds (proof_db E ns) n (path_to_nibbles ?key) raw)"
    by (cases "nym_data E json_msg") simp_all
  with did [unfolded nym_target_def] p rlp ns signed_root root show ?thesis by blast
qed

theorem accepted_nym_is_in_state_witness:
  "\<exists>did p nodes_rlp ns r root n.
      (case as_str (json_index sample_nym ''dest'') of Some d \<Rightarrow> Some d | None \<Rightarrow> as_str (json_index sample_nym ''origin'')) = Some did \<and>
      as_str (json_index (json_index sample_nym ''state_proof'') ''proof_nodes'') = Some p \<and>
      base64_decode sample_sp_env p = Some nodes_rlp \<and> proof_node_list sample_sp_env nodes_rlp = Ok ns \<and>
      as_str (json_index (json_index sample_nym ''state_proof'') ''root_hash'') = Some r \<and>
      as_str (json_index (json_index (json_index (json_index sample_nym ''state_proof'') ''multi_signature'') ''value'') ''state_root_hash'') = Some r \<and>
      sp_base58_decode sample_sp_env r = Some root \<and> hmap_get root (proof_db sample_sp_env ns) = Some n \<and>
      (case nym_data sample_sp_env sample_nym of
         Some parsed_data \<Rightarrow> \<exists>raw val. binds (proof_db sample_sp_env ns) n (path_to_nibbles (sha2_256 sample_sp_env (into_bytes did))) raw \<and>
           as_list_or_default as_bytes (rlp_view sample_sp_env raw) = (Ok [val] :: bytes list IndyResult) \<and>
           from_utf8 val = Some (nym_entry sample_sp_env sample_nym parsed_data)
       | None \<Rightarrow> json_index sample_nym ''data'' = JNull \<and>
           (\<nexists>raw. binds (proof_db sample_sp_env ns) n (path_to_nibbles (sha2_256 sample_sp_env (into_bytes did))) raw))"
proof (rule accepted_nym_is_in_state)
  show "base64_decode sample_sp_env (base64_encode sample_sp_env k) = Some k" for k
    by (simp add: sample_sp_env_def trie_env.extend_def)
  show "parse_generic_reply_for_proof_checking sample_sp_env sample_nym [] = Ok [sample_sp]" by code_simp
  show "as_str (json_index sample_nym ''type'') = Some GET_NYM" by code_simp
qed (rule sample_accepted)

end
