(* ===== verification/State_Answers.thy ===== *)
theory State_Answers
  imports State_Proof Request_Quorum
begin

text \<open>
  The request machine with the state proof check of the library: the two parameters of the machine
  that stand for parsing and verifying proofs are the functions of \<open>State_Proof\<close>. A check that panics
  loses the thread of the pool, and so does one that never returns: the step then has no result, which
  is \<^const>\<open>Panic\<close>.

  The theorem composes the components: an answer to a request that was sent to a single node is
  honest, either because the state it quotes is signed by honest nodes or because an honest node gave
  the same answer, unless a parser registered by the application vouches for it without any proof.
\<close>

definition with_state_proofs :: "'s sp_env_scheme \<Rightarrow> 'e request_env_scheme \<Rightarrow> 'e request_env_scheme" where
  "with_state_proofs S E = E\<lparr>
     parse_reply_proofs := parse_generic_reply_for_proof_checking S,
     verify_parsed_sp := (\<lambda>sps nodes f gen.
       case verify_parsed_sps S sps nodes f gen of Some r \<Rightarrow> r | None \<Rightarrow> Panic)\<rparr>"

lemma check_state_proof_with:
  "check_state_proof (with_state_proofs S E) result f gen nodes raw_msg = Ok True \<longleftrightarrow>
     (\<exists>sps. parse_generic_reply_for_proof_checking S result raw_msg = Ok sps \<and>
            verify_parsed_sps S sps nodes f gen = Some (Ok True))"
  by (auto simp: check_state_proof_def with_state_proofs_def split: outcome.splits option.splits)

text \<open>
  The step with the state proof check never fails with an error of the check: the check gives a truth
  value, or the thread is lost.
\<close>

lemma check_state_proof_no_error: "check_state_proof (with_state_proofs S E) result f gen nodes raw_msg \<noteq> Err e"
  by (auto simp: check_state_proof_def with_state_proofs_def verification_gives_no_error split: outcome.splits option.splits)

text \<open>What the honest nodes signed: the roots of all proofs that a message carries.\<close>

definition honestly_signed :: "'s sp_env_scheme \<Rightarrow> (string \<Rightarrow> bytes \<Rightarrow> bool) \<Rightarrow> (string, bytes option) hmap \<Rightarrow> string set \<Rightarrow> nat \<Rightarrow>
    ParsedSP list \<Rightarrow> bool" where
  "honestly_signed S has_signed nodes faulty f sps =
     (\<forall>sp \<in> set sps. \<exists>value. rmp_to_vec_named S (json_index (multi_signature sp) ''value'') = Some value \<and>
        as_str (json_index (json_index (multi_signature sp) ''value'') ''state_root_hash'') = Some (sp_root_hash sp) \<and>
        f + 1 \<le> card {name \<in> fst ` set nodes - faulty. has_signed name value})"

text \<open>
  C2: A request to a single node is answered honestly. In every run of the request machine with the
  state proof check, one of three things holds of a positive answer: it carries at least one proof, its
  proofs verify, and at least \<open>f + 1\<close> honest nodes signed the state root of each of them; or an honest
  node sent the same result; or the type of the answer is one for which the application registered a
  parser of its own, and that parser gave an empty list of proofs. At most \<open>f\<close> of at least \<open>3f + 1\<close>
  nodes are faulty and valid multi-signatures show who signed.
\<close>

theorem single_answer_is_honest:
  assumes bls: "multi_sig_sound S nodes faulty has_signed"
    and pool: "hmap_ok nodes" "3 * f + 1 \<le> length nodes" "finite faulty" "card faulty \<le> f"
    and run: "reach (with_state_proofs S E) (RequestSM_new (with_state_proofs S E) f ids nodes (Some gen) name t0 t1) sm hist"
      "sm_state sm = Single st" "handle_event (with_state_proofs S E) t sm re d = (d', Ok (sm', pe, effs))"
      "SubmitAck i (Ok msg) \<in> set effs"
  shows "(\<exists>result sps. parse_generic_reply_for_proof_checking S result msg = Ok sps \<and> sps \<noteq> [] \<and>
            get_msg_result_without_state_proof (with_state_proofs S E) msg = Ok (result, the (result_of (with_state_proofs S E) msg)) \<and>
            verify_parsed_sps S sps nodes f gen = Some (Ok True) \<and> honestly_signed S has_signed nodes faulty f sps) \<or>
         (\<exists>v node m. node \<notin> faulty \<and> result_of (with_state_proofs S E) msg = Some v \<and>
            answered (with_state_proofs S E) (hist @ [re]) v node m) \<or>
         (\<exists>result xtype parser. get_msg_result_without_state_proof (with_state_proofs S E) msg =
              Ok (result, the (result_of (with_state_proofs S E) msg)) \<and>
            as_str (json_index result ''type'') = Some xtype \<and> xtype \<notin> set REQUESTS_FOR_STATE_PROOFS \<and>
            get_sp_parser S xtype = Some parser \<and> parse_generic_reply_for_proof_checking S result msg = Ok [])"
proof -
  have same: "sm_f sm = f" "sm_nodes sm = nodes" "sm_generator sm = gen"
    using reach_keeps [OF run(1)] by (simp_all add: RequestSM_new_def)
  from single_backed [OF run pool(3,4)] show ?thesis
  proof
    assume "fresh_proof (with_state_proofs S E) t sm msg"
    then obtain result v where res: "get_msg_result_without_state_proof (with_state_proofs S E) msg = Ok (result, v)"
      and "check_state_proof (with_state_proofs S E) result f gen nodes msg = Ok True"
      unfolding fresh_proof_def same by blast
    then obtain sps where sps: "parse_generic_reply_for_proof_checking S result msg = Ok sps"
      and acc: "verify_parsed_sps S sps nodes f gen = Some (Ok True)"
      by (auto simp: check_state_proof_with)
    have "honestly_signed S has_signed nodes faulty f sps"
      unfolding honestly_signed_def
    proof
      fix sp assume "sp \<in> set sps"
      then show "\<exists>value. rmp_to_vec_named S (json_index (multi_signature sp) ''value'') = Some value \<and>
        as_str (json_index (json_index (multi_signature sp) ''value'') ''state_root_hash'') = Some (sp_root_hash sp) \<and>
        f + 1 \<le> card {name \<in> fst ` set nodes - faulty. has_signed name value}"
        using honest_signers [OF bls pool acc] by blast
    qed
    with res sps acc no_proofs_from_parser [of S result msg] show ?thesis
      by (cases "sps = []") (auto simp: result_of_def)
  qed simp
qed

definition proving_env :: request_env where
  "proving_env = with_state_proofs sample_sp_env
     (plain_request_env\<lparr>json_parse := (\<lambda>_. Some (JObject [(''result'', sample_nym)]))\<rparr>)"

theorem single_answer_is_honest_witness:
  "(\<exists>result sps. parse_generic_reply_for_proof_checking sample_sp_env result ''r'' = Ok sps \<and> sps \<noteq> [] \<and>
      get_msg_result_without_state_proof proving_env ''r'' = Ok (result, the (result_of proving_env ''r'')) \<and>
      verify_parsed_sps sample_sp_env sps keyed_nodes 1 [] = Some (Ok True) \<and>
      honestly_signed sample_sp_env (\<lambda>name value. value = [5]) keyed_nodes {''D''} 1 sps) \<or>
   (\<exists>v node m. node \<notin> {''D''} \<and> result_of proving_env ''r'' = Some v \<and>
      answered proving_env ([Re_CustomSingleRequest ''q'' ''1''] @ [Re_Reply sample_reply ''r'' ''A'' ''1'']) v node m) \<or>
   (\<exists>result xtype parser. get_msg_result_without_state_proof proving_env ''r'' = Ok (result, the (result_of proving_env ''r'')) \<and>
      as_str (json_index result ''type'') = Some xtype \<and> xtype \<notin> set REQUESTS_FOR_STATE_PROOFS \<and>
      get_sp_parser sample_sp_env xtype = Some parser \<and>
      parse_generic_reply_for_proof_checking sample_sp_env result ''r'' = Ok [])"
proof -
  let ?sm0 = "RequestSM_new proving_env 1 [7] keyed_nodes (Some []) ''p'' 20 60"
    and ?q = "Re_CustomSingleRequest ''q'' ''1''" and ?r = "Re_Reply sample_reply ''r'' ''A'' ''1''" and ?d = "genesis_dir []"
  let ?sm1 = "?sm0\<lparr>sm_state := Single single_from_start\<rparr>"
  have "snd (handle_event proving_env 0 ?sm0 ?q ?d) = Ok (?sm1, None, [Net (Ne_SendOneRequest ''q'' ''1'' 20), Net (Ne_Resend ''1'' 20)])"
    by code_simp
  from reach.step [OF reach.init handle_fst_snd [OF this]]
  have reach: "reach proving_env ?sm0 ?sm1 [?q]" by simp
  have "snd (handle_event proving_env 0 ?sm1 ?r ?d) =
      Ok (?sm1\<lparr>sm_state := Finish\<rparr>, None, [Net (Ne_CleanTimeout ''1'' None), SubmitAck 7 (Ok ''r'')])"
    by code_simp
  note run = reach [unfolded proving_env_def] _ handle_fst_snd [OF this, unfolded proving_env_def]
  show ?thesis
    unfolding proving_env_def
    by (rule single_answer_is_honest [OF sample_multi_sig _ _ _ _ run, where faulty = "{''D''}" and i = 7])
       (simp_all add: keyed_nodes_def)
qed

end
