(* ===== verification/Spec2Isabelle.thy ===== *)
theory Spec2Isabelle
  imports Error_Codes Merkle_Consistency Wallet_Sql Catchup_Reply State_Answers
begin

text \<open>
  A verification library for the core of the Indy SDK, the Rust library \<open>libindy\<close> (\<open>libindy/src\<close>).

  \<^bold>\<open>The program.\<close> \<open>libindy\<close> is the client of a ledger of decentralised identifiers and the keeper of
  its user's secrets. A C interface (\<open>api/\<close>) turns calls into commands; one thread executes them
  (\<open>commands/\<close>) on services (\<open>services/\<close>). Two services hold the library's own logic. The pool service
  talks to the validator nodes of a ledger: for every request a state machine collects the answers of
  the nodes, and what they answer is checked by quorums, by Merkle proofs against the ledger of the
  pool's nodes, which is kept as a Merkle tree with a cache file, or by signed state proofs. The wallet
  service keeps encrypted records and finds them again by queries over encrypted tags, which are
  translated to SQL. The development models the logic of these two: the request machine with the
  catch-up, the Merkle tree and the state proofs of the pool, and the encryption, the query language and
  the SQL of the wallet, down to the bytes that are encrypted, hashed, stored and sent.

  \<^bold>\<open>Conventions.\<close> A Rust function that returns \<open>IndyResult\<close> is a function to \<open>outcome\<close>: \<open>Ok\<close>, \<open>Err\<close>
  with the error kind, or \<open>Panic\<close>, so that every unwrap, index and checked subtraction of the code is a
  branch of the model (\<open>Indy_Prelude\<close>, \<open>Indy_Errors\<close>). \<open>usize\<close> arithmetic that can overflow takes the
  build profile as an argument: it panics in a debug build and wraps in a release build. A struct is a
  record, an enum a datatype with the constructors of the code, a \<open>HashMap\<close> an association list whose
  iteration order is arbitrary (what depends on the order takes it as an argument), interior mutability
  and I/O explicit state. A \<open>String\<close> is the list of its UTF-8 bytes, written as characters. Loops are
  structural recursions, \<open>function\<close>s with a measure, or \<open>partial_function\<close>s whose value \<open>None\<close> is a loop
  that does not end; for the one such loop, the walk through the trie, it is a theorem when it ends. No
  fuel is used.

  \<^bold>\<open>Parameters.\<close> Code that is not in the repository is an argument of the definitions that use it,
  collected in records: libsodium (\<open>aead\<close>, \<open>crypto\<close>), SHA-256 of OpenSSL, \<open>serde_json\<close>, MessagePack, base58
  and base64, the BLS library, the RLP crate and SHA3, and the file system, any of whose calls may fail.
  What a theorem needs of them (decryption inverts encryption, a decoder inverts its encoder, a valid
  multi-signature shows who signed) is a named hypothesis, and the witness of the theorem instantiates
  it with concrete functions. Collisions of hash functions are never assumed away: where one would
  break a property, the property says so.

  \<^bold>\<open>Shared theories.\<close>
  \<^item> \<open>Indy_Prelude\<close>: outcomes, checked arithmetic, hash maps and sets, bytes and text.
  \<^item> \<open>Indy_Errors\<close>, \<open>Error_Codes\<close>: the error kinds (\<open>errors/mod.rs\<close>) and their numbers (\<open>api/mod.rs\<close>).
  \<^item> \<open>Json_Value\<close>: JSON values with the access functions of \<open>serde_json\<close>.

  \<^bold>\<open>Pool theories.\<close>
  \<^item> \<open>Merkle_Tree\<close>, \<open>Merkle_Spec\<close>, \<open>Merkle_Proof\<close>, \<open>Merkle_Consistency\<close>: the ledger tree (\<open>services/ledger/merkletree\<close>), its
    specification by RFC 6962, inclusion and consistency proofs. \<open>Append_Log\<close> holds the locale through
    which the pool uses the tree: a log that is built by appending.
  \<^item> \<open>Pool_Types\<close>, \<open>Merkle_Factory\<close>: messages and node transactions (\<open>services/pool/types.rs\<close>), the genesis and cache
    files and the node table (\<open>merkle_tree_factory.rs\<close>). The directory of a pool is a record of its two files.
  \<^item> \<open>Catchup\<close>, \<open>Pool_Events\<close>, \<open>Ledger_Response\<close>: agreement on the ledger to catch up with (\<open>catchup.rs\<close>), the events
    (\<open>events.rs\<close>), response metadata (\<open>domain/ledger/response.rs\<close>).
  \<^item> \<open>Request_Handler\<close>: the state machine of one request (\<open>request_handler.rs\<close>). A step takes an event and returns the
    next state, the event for the pool and the calls made in their order. \<open>Request_Properties\<close> (runs, the
    locale of handlers that answer once), \<open>Request_Quorum\<close> (what backs an answer) and \<open>Catchup_Reply\<close> (catch-up)
    hold its properties.
  \<^item> \<open>State_Trie\<close>, \<open>State_Proof\<close>, \<open>State_Answers\<close>: the Patricia trie (\<open>state_proof/node.rs\<close>), the check of state
    proofs (\<open>state_proof/mod.rs\<close>), and its composition with the request machine.

  \<^bold>\<open>Wallet theories.\<close>
  \<^item> \<open>Chacha_Stream\<close>: authenticated encryption and the chunked stream (\<open>utils/crypto/chacha20poly1305_ietf\<close>);
    its locale is what the reader of the stream needs of \<open>Read\<close>.
  \<^item> \<open>Wallet_Encryption\<close>: keys, records and metadata (\<open>services/wallet/encryption.rs\<close>, \<open>wallet.rs\<close>, \<open>domain/wallet/mod.rs\<close>).
  \<^item> \<open>Wallet_Language\<close>: the query language (\<open>services/wallet/language.rs\<close>): parser, optimiser, and the meaning of queries (a locale of evaluators).
  \<^item> \<open>Query_Encryption\<close>, \<open>Wallet_Sql\<close>: encryption of queries and their translation to SQL
    (\<open>query_encryption.rs\<close>, \<open>storage/default/query.rs\<close>), with the meaning of the printed clause.

  \<^bold>\<open>What the theorems show.\<close> The tree is that of RFC 6962, appending is rebuilding, and accepted inclusion and
  consistency proofs are sound unless two hashed strings collide; a consistency proof is accepted for
  every honest prefix. An answer to the user is that of an honest node or backed by a signed state, as
  long as at most \<open>f\<close> nodes are faulty and no registered parser vouches for an answer without proof; every command
  is acknowledged exactly once. A catch-up goes to a target an honest node voted for and ends with a
  prefix of that ledger, in memory and in the cache; reloading the cache gives the ledger that was
  dumped, and the node table merges the transactions of each node. A state proof is accepted exactly when the trie binds
  the value, and checking it ends when the hashes have no cycle. For the wallet: streams, records and
  metadata are read back as they were written, a query keeps its meaning through optimisation,
  encryption and translation, and the text of the SQL matches its arguments. Theorems of kind error
  state what the code does where it falls short: panics on malformed answers of a single node and on
  short lists of values, and a first dump that loses the ledger on a full disk.

  \<^bold>\<open>Bounds.\<close> Lengths of transactions are below \<open>2 ^ 63\<close> where they are written to the cache, as any vector's are.
  Sequence numbers are bounded by the width of \<open>usize\<close> where the code converts them. A process that is
  aborted for lack of memory is outside the model.

  \<^bold>\<open>Not modelled.\<close>
  \<^item> Wallet storage and wallet service: The tables of the SQLite storage, the operations of
    the wallet on them and the handles of open wallets. The encryption of records, the metadata, the
    query language and its SQL, on which they rest, are modelled.
  \<^item> Wallet export and import: The format of an export file. The chunked encrypted stream it
    is written through is modelled.
  \<^item> Plugged wallet storage: Calls C function pointers supplied by a plugin and copies memory
    they own; the behaviour is that of the plugin.
  \<^item> Pool service and pool state machine: The thread of a pool, which feeds events to the
    machines of its requests, and the table of open pools. The events, the request machine with all
    its states and the ledger cache are modelled.
  \<^item> Networker: Sockets of ZeroMQ, their timeouts and the choice of the next node to ask. The
    calls the request machine makes on it are modelled as effects in their order.
  \<^item> Crypto service: Keys, signatures and packed messages: mostly calls of libsodium between
    encodings; the commands store their results in the wallet.
  \<^item> Ledger requests: Builders of the JSON of requests and parsers of replies, which are
    mostly declarations for \<open>serde_json\<close>, and the serialisation that is signed.
  \<^item> Anonymous credentials: The substance is the signature library ursa, which is not in the
    repository; the code here converts between its types and JSON.
  \<^item> Blob storage: Reads and writes files by handle, with no decisions of its own beyond the
    tables of handles.
  \<^item> Payments and non-secret records: Dispatch to the C callbacks of payment plugins by a
    method name, and forwarding to the wallet service.
  \<^item> C interface and command dispatch: Checks raw pointers, copies C strings and queues a
    command for its executor. The error codes it returns are modelled.
  \<^item> Bindings of cryptographic libraries: Thin wrappers of libsodium, base58 and base64; where
    the model needs the functions behind them they are parameters.
  \<^item> Logging, environment and test utilities: Output, paths of the host and fixtures of tests.
  \<^item> Command line client: An interactive client of the C interface: parsing of command lines
    and printing.
  \<^item> libnullpay: A payment plugin for tests.
  \<^item> VCX: A separate library of credential exchange on top of the C interface.
  \<^item> PostgreSQL storage plugin: An experimental plugin; its query language and translation are
    copies of the ones modelled for the default storage.
  \<^item> Language wrappers: Bindings of the C interface; those of the other languages, the samples
    and the documents are left out likewise.
\<close>

end
